theory Spec2Isabelle
  imports Main "HOL-Library.Log_Nat"
begin

section \<open>Python strings\<close>

text \<open>
  A Python \<open>str\<close> is a \<open>string\<close>: one \<open>char\<close> per code point, the code point being
  the character's number (0 to 255). The character classes below are CPython's on that
  range: \<open>str.isspace\<close> (which \<open>str.strip\<close> and the regular expression class \<open>\s\<close>
  use), the decimal digits (the class \<open>\d\<close> and the digits \<open>int\<close> and \<open>float\<close> read) and
  the line boundaries of \<open>str.splitlines\<close>.
\<close>

definition py_isspace :: "char \<Rightarrow> bool" where
  "py_isspace c = ((of_char c :: nat) \<in> {9, 10, 11, 12, 13, 28, 29, 30, 31, 32, 133, 160})"

definition py_isdigit :: "char \<Rightarrow> bool" where
  "py_isdigit c = (48 \<le> (of_char c :: nat) \<and> (of_char c :: nat) \<le> 57)"

definition py_islinebreak :: "char \<Rightarrow> bool" where
  "py_islinebreak c = ((of_char c :: nat) \<in> {10, 11, 12, 13, 28, 29, 30, 133})"

text \<open>\<open>s.strip()\<close>: leading and trailing whitespace removed.\<close>

definition py_strip :: "string \<Rightarrow> string" where
  "py_strip s = rev (dropWhile py_isspace (rev (dropWhile py_isspace s)))"

text \<open>
  \<open>s.splitlines()\<close>: the text is cut at every line boundary, \<open>\r\n\<close> counting as one;
  the boundaries are dropped and no empty last line is produced. \<open>cur\<close> holds the
  current line, reversed.
\<close>

fun splitlines_from :: "string \<Rightarrow> string \<Rightarrow> string list" where
  "splitlines_from cur [] = (if cur = [] then [] else [rev cur])"
| "splitlines_from cur (c # cs) =
     (if c = CHR 0x0D \<and> cs \<noteq> [] \<and> hd cs = CHR 0x0A then rev cur # splitlines_from [] (tl cs)
      else if py_islinebreak c then rev cur # splitlines_from [] cs
      else splitlines_from (c # cur) cs)"

definition py_splitlines :: "string \<Rightarrow> string list" where
  "py_splitlines s = splitlines_from [] s"

text \<open>
  The first occurrence of a separator: \<open>split_once sep s\<close> is the text before it and the
  text after it, or \<open>None\<close> when \<open>sep\<close> does not occur. So \<open>sep in s\<close> is
  \<open>split_once sep s \<noteq> None\<close>, \<open>s.split(sep, 1)\<close> is the two parts, and \<open>s.split(sep)[0]\<close>
  is the first part (all of \<open>s\<close> when \<open>sep\<close> does not occur).
\<close>

fun split_once :: "string \<Rightarrow> string \<Rightarrow> (string \<times> string) option" where
  "split_once sep [] = (if sep = [] then Some ([], []) else None)"
| "split_once sep (c # cs) =
     (if take (length sep) (c # cs) = sep then Some ([], drop (length sep) (c # cs))
      else map_option (\<lambda>(a, b). (c # a, b)) (split_once sep cs))"

definition py_contains :: "string \<Rightarrow> string \<Rightarrow> bool" where
  "py_contains sep s = (split_once sep s \<noteq> None)"

definition split_first :: "string \<Rightarrow> string \<Rightarrow> string" where
  "split_first sep s = (case split_once sep s of None \<Rightarrow> s | Some (a, b) \<Rightarrow> a)"

text \<open>
  \<open>s.find(sep)\<close>, the least index at which \<open>sep\<close> occurs in \<open>s\<close>: what the
  specification's "first occurrence" is read as.
\<close>

definition py_find :: "string \<Rightarrow> string \<Rightarrow> nat option" where
  "py_find sep s = List.find (\<lambda>k. take (length sep) (drop k s) = sep) [0..<Suc (length s)]"

section \<open>Python integers\<close>

text \<open>
  \<open>int(s)\<close> on a text of digits and minus signs, which is all that
  \<open>re.sub(r"[^\d\-]", "", ...)\<close> leaves: an optional minus sign and at least one digit,
  read in base 10; anything else raises \<open>ValueError\<close> (\<open>None\<close>), and so does a text of
  more than 4300 digits (CPython's default limit on the conversion).
\<close>

definition digit_val :: "char \<Rightarrow> int" where
  "digit_val c = int (of_char c) - 48"

definition digits_val :: "string \<Rightarrow> int" where
  "digits_val ds = foldl (\<lambda>n c. 10 * n + digit_val c) 0 ds"

definition py_digits :: "string \<Rightarrow> int option" where
  "py_digits ds =
     (if ds \<noteq> [] \<and> list_all py_isdigit ds \<and> length ds \<le> 4300 then Some (digits_val ds)
      else None)"

definition py_int :: "string \<Rightarrow> int option" where
  "py_int s =
     (case s of
        [] \<Rightarrow> None
      | c # cs \<Rightarrow> if c = CHR ''-'' then map_option uminus (py_digits cs) else py_digits s)"

section \<open>Helpers of app.py\<close>

text \<open>\<open>re.sub(r"[^\d\-]", "", s)\<close>: every character but digits and minus signs removed.\<close>

definition clean_int_text :: "string \<Rightarrow> string" where
  "clean_int_text s = filter (\<lambda>c. py_isdigit c \<or> c = CHR ''-'') s"

text \<open>\<open>parse_salary_to_int\<close> (lines 35 to 46); \<open>None\<close> is Python's \<open>None\<close>.\<close>

definition parse_salary_to_int :: "string \<Rightarrow> int option" where
  "parse_salary_to_int s =
     (if s = [] then None
      else let cleaned = clean_int_text s in
        if cleaned = [] \<or> cleaned = ''-'' \<or> cleaned = ''--'' then None
        else py_int cleaned)"

text \<open>\<open>format_currency\<close> (lines 48 to 50), \<open>f"{n:,}"\<close>: the decimal digits in groups of three.\<close>

fun py_str_nat :: "nat \<Rightarrow> string" where
  "py_str_nat n =
     (if n < 10 then [char_of (48 + n)] else py_str_nat (n div 10) @ [char_of (48 + n mod 10)])"

fun group3 :: "string \<Rightarrow> string" where
  "group3 ds =
     (if length ds \<le> 3 then ds
      else group3 (take (length ds - 3) ds) @ '','' @ drop (length ds - 3) ds)"

definition format_currency :: "int \<Rightarrow> string" where
  "format_currency n = (if n < 0 then ''-'' else []) @ group3 (py_str_nat (nat \<bar>n\<bar>))"

subsection \<open>The pattern of \<open>extract_player_name\<close>\<close>

text \<open>
  \<open>re.search(r"^(?:Name|Player)[:\s\-]+(.{2,60})$", ln, flags=re.I)\<close>, returning group 1.
  The pattern is anchored at the start. \<open>ci_prefix\<close> matches the keyword without regard
  to case; \<open>[:\s\-]+\<close> is greedy, so the number of separators it consumes is tried from
  the longest run down to one (\<open>try_group\<close>); \<open>.{2,60}$\<close> needs 2 to 60 characters
  other than a newline up to the end of the text, or up to a newline that ends it
  (\<open>group_at\<close>).
\<close>

definition ascii_lower :: "char \<Rightarrow> char" where
  "ascii_lower c =
     (if 65 \<le> (of_char c :: nat) \<and> (of_char c :: nat) \<le> 90 then char_of ((of_char c :: nat) + 32)
      else c)"

definition ci_prefix :: "string \<Rightarrow> string \<Rightarrow> string option" where
  "ci_prefix kw s =
     (if length kw \<le> length s \<and> map ascii_lower (take (length kw) s) = map ascii_lower kw
      then Some (drop (length kw) s) else None)"

definition is_sep :: "char \<Rightarrow> bool" where
  "is_sep c = (c = CHR '':'' \<or> py_isspace c \<or> c = CHR ''-'')"

definition group_at :: "string \<Rightarrow> string option" where
  "group_at g =
     (let body = (if g \<noteq> [] \<and> last g = CHR 0x0A then butlast g else g)
      in if 2 \<le> length body \<and> length body \<le> 60 \<and> CHR 0x0A \<notin> set body then Some body
         else None)"

fun try_group :: "nat \<Rightarrow> string \<Rightarrow> string option" where
  "try_group 0 rest = None"
| "try_group (Suc j) rest =
     (case group_at (drop (Suc j) rest) of
        Some g \<Rightarrow> Some g
      | None \<Rightarrow> try_group j rest)"

definition after_keyword :: "string \<Rightarrow> string \<Rightarrow> string option" where
  "after_keyword kw line =
     (case ci_prefix kw line of
        None \<Rightarrow> None
      | Some rest \<Rightarrow> try_group (length (takeWhile is_sep rest)) rest)"

definition name_pattern :: "string \<Rightarrow> string option" where
  "name_pattern line =
     (case after_keyword ''Name'' line of
        Some g \<Rightarrow> Some g
      | None \<Rightarrow> after_keyword ''Player'' line)"

text \<open>The loop of lines 60 to 63: the group of the first line that matches.\<close>

fun first_match :: "string list \<Rightarrow> string option" where
  "first_match [] = None"
| "first_match (line # more) =
     (case name_pattern line of
        Some g \<Rightarrow> Some g
      | None \<Rightarrow> first_match more)"

text \<open>\<open>[ln.strip() for ln in stats_text.splitlines() if ln.strip()]\<close> (line 56).\<close>

definition stripped_lines :: "string \<Rightarrow> string list" where
  "stripped_lines stats_text = filter (\<lambda>line. line \<noteq> []) (map py_strip (py_splitlines stats_text))"

text \<open>\<open>extract_player_name\<close> (lines 52 to 70).\<close>

definition extract_player_name :: "string \<Rightarrow> string" where
  "extract_player_name stats_text =
     (if stats_text = [] then ''Unknown Player''
      else case stripped_lines stats_text of
        [] \<Rightarrow> ''Unknown Player''
      | first # others \<Rightarrow>
          (case first_match (take 8 (first # others)) of
             Some g \<Rightarrow> py_strip g
           | None \<Rightarrow>
               if py_contains '' - '' first then py_strip (split_first '' - '' first)
               else if py_contains '','' first \<and> length (split_first '','' first) < 40
                 then py_strip (split_first '','' first)
               else py_strip (take 60 first)))"

text \<open>
  Player-name extraction in the words of the specification, to compare
  \<open>extract_player_name\<close> with: the text before the first \<open> - \<close>, or the prefix before the
  first comma when it has fewer than 40 characters, is returned as it stands.
\<close>

definition extract_player_name_claimed :: "string \<Rightarrow> string" where
  "extract_player_name_claimed statsText =
     (case stripped_lines statsText of
        [] \<Rightarrow> ''Unknown Player''
      | first # others \<Rightarrow>
          (case first_match (take 8 (first # others)) of
             Some g \<Rightarrow> py_strip g
           | None \<Rightarrow>
               (case py_find '' - '' first of
                  Some k \<Rightarrow> take k first
                | None \<Rightarrow>
                    (case py_find '','' first of
                       Some k \<Rightarrow> if k < 40 then take k first else py_strip (take 60 first)
                     | None \<Rightarrow> py_strip (take 60 first)))))"

text \<open>The same with both prefixes trimmed.\<close>

definition extract_player_name_amended :: "string \<Rightarrow> string" where
  "extract_player_name_amended statsText =
     (case stripped_lines statsText of
        [] \<Rightarrow> ''Unknown Player''
      | first # others \<Rightarrow>
          (case first_match (take 8 (first # others)) of
             Some g \<Rightarrow> py_strip g
           | None \<Rightarrow>
               (case py_find '' - '' first of
                  Some k \<Rightarrow> py_strip (take k first)
                | None \<Rightarrow>
                    (case py_find '','' first of
                       Some k \<Rightarrow>
                         if k < 40 then py_strip (take k first) else py_strip (take 60 first)
                     | None \<Rightarrow> py_strip (take 60 first)))))"

section \<open>Python floats\<close>

text \<open>
  A finite \<open>float\<close> is the rational number it stands for (a binary64 value); a result that
  may overflow is a \<open>double\<close>. The sign of zero is not kept: no result of the program
  depends on it. \<open>rnd\<close> rounds a rational to the nearest binary64 value, ties to the even
  significand: 53 significant bits, exponents from -1022 (below it the spacing stays
  \<open>2 powi -1074\<close>), and a magnitude that rounds to \<open>2 powi 1024\<close> or more
  overflows. The conversion of a decimal text, of an \<open>int\<close>, and the float product and
  quotient are all this rounding of the exact result.
\<close>

datatype double = Finite rat | PosInf | NegInf

datatype py_exn = ValueError | OverflowError | ZeroDivisionError

definition round_half_even :: "rat \<Rightarrow> int" where
  "round_half_even x =
     (let f = \<lfloor>x\<rfloor>; d = x - of_int f
      in if d < 1 / 2 then f else if 1 / 2 < d then f + 1 else if even f then f else f + 1)"

text \<open>\<open>ilog2 a\<close> is the \<open>e\<close> with \<open>2 powi e \<le> a < 2 powi (e + 1)\<close>, for \<open>a > 0\<close>.\<close>

definition ilog2 :: "rat \<Rightarrow> int" where
  "ilog2 a =
     (let (p, q) = quotient_of a; k = bitlen p - bitlen q
      in if 2 powi k \<le> a then k else k - 1)"

definition ulp :: "rat \<Rightarrow> rat" where
  "ulp a = 2 powi (max (ilog2 a) (- 1022) - 52)"

definition rnd :: "rat \<Rightarrow> double" where
  "rnd x =
     (if x = 0 then Finite 0
      else let a = \<bar>x\<bar>; r = of_int (round_half_even (a / ulp a)) * ulp a
        in if 2 powi 1024 \<le> r then (if 0 < x then PosInf else NegInf)
           else Finite (if 0 < x then r else - r))"

text \<open>
  \<open>float(s)\<close> on a text of digits, dots and minus signs, which is all that
  \<open>re.sub(r"[^\d\.-]", "", ...)\<close> leaves: an optional minus sign, then digits with at most
  one dot and at least one digit; anything else raises \<open>ValueError\<close> (\<open>None\<close>).
\<close>

definition py_float_unsigned :: "string \<Rightarrow> double option" where
  "py_float_unsigned s =
     (let ip = takeWhile py_isdigit s
      in case dropWhile py_isdigit s of
           [] \<Rightarrow> if ip = [] then None else Some (rnd (of_int (digits_val ip)))
         | c # fp \<Rightarrow>
             if c = CHR ''.'' \<and> list_all py_isdigit fp \<and> (ip \<noteq> [] \<or> fp \<noteq> [])
             then Some (rnd (of_int (digits_val (ip @ fp)) / 10 ^ length fp))
             else None)"

definition fneg :: "double \<Rightarrow> double" where
  "fneg d = (case d of Finite x \<Rightarrow> Finite (- x) | PosInf \<Rightarrow> NegInf | NegInf \<Rightarrow> PosInf)"

definition py_float :: "string \<Rightarrow> double option" where
  "py_float s =
     (case s of
        [] \<Rightarrow> None
      | c # cs \<Rightarrow> if c = CHR ''-'' then map_option fneg (py_float_unsigned cs)
                 else py_float_unsigned s)"

text \<open>
  \<open>max(0.0, min(100.0, pct))\<close> (line 169). Python's \<open>min\<close> and \<open>max\<close> keep their first
  argument unless the second is strictly smaller (larger), so the result is finite.
\<close>

definition clamp_pct :: "double \<Rightarrow> rat" where
  "clamp_pct d =
     (case d of
        Finite x \<Rightarrow> (let m = (if x < 100 then x else 100) in if 0 < m then m else 0)
      | PosInf \<Rightarrow> 100
      | NegInf \<Rightarrow> 0)"

text \<open>
  An \<open>int\<close> operand of a float product is converted first and \<open>a / b\<close> on two \<open>int\<close>s is
  the correctly rounded quotient; both raise \<open>OverflowError\<close> when the result is too
  large for a float. \<open>math.floor\<close> and \<open>int\<close> raise it on an infinity.
\<close>

definition finite_or_overflow :: "double \<Rightarrow> py_exn + rat" where
  "finite_or_overflow d = (case d of Finite x \<Rightarrow> Inr x | PosInf \<Rightarrow> Inl OverflowError | NegInf \<Rightarrow> Inl OverflowError)"

definition int_to_float :: "int \<Rightarrow> py_exn + rat" where
  "int_to_float n = finite_or_overflow (rnd (of_int n))"

definition int_truediv :: "int \<Rightarrow> int \<Rightarrow> py_exn + rat" where
  "int_truediv a b =
     (if b = 0 then Inl ZeroDivisionError else finite_or_overflow (rnd (of_int a / of_int b)))"

definition fmul :: "rat \<Rightarrow> rat \<Rightarrow> double" where
  "fmul x y = rnd (x * y)"

definition fdiv :: "rat \<Rightarrow> rat \<Rightarrow> double" where
  "fdiv x y = rnd (x / y)"

definition py_floor :: "double \<Rightarrow> py_exn + int" where
  "py_floor d = (case d of Finite x \<Rightarrow> Inr \<lfloor>x\<rfloor> | PosInf \<Rightarrow> Inl OverflowError | NegInf \<Rightarrow> Inl OverflowError)"

definition py_trunc :: "double \<Rightarrow> py_exn + int" where
  "py_trunc d =
     (case d of
        Finite x \<Rightarrow> Inr (if 0 \<le> x then \<lfloor>x\<rfloor> else - \<lfloor>- x\<rfloor>)
      | PosInf \<Rightarrow> Inl OverflowError
      | NegInf \<Rightarrow> Inl OverflowError)"

text \<open>
  \<open>f"{x:.2f}"\<close>: the value rounded to two decimals (ties to even on the exact value), at
  least one digit before the point.
\<close>

definition two_digits :: "nat \<Rightarrow> string" where
  "two_digits n = [char_of (48 + n div 10), char_of (48 + n mod 10)]"

definition fmt2 :: "double \<Rightarrow> string" where
  "fmt2 d =
     (case d of
        Finite x \<Rightarrow>
          (let n = nat (round_half_even (\<bar>x\<bar> * 100))
           in (if x < 0 then ''-'' else []) @ py_str_nat (n div 100) @ ''.'' @ two_digits (n mod 100))
      | PosInf \<Rightarrow> ''inf''
      | NegInf \<Rightarrow> ''-inf'')"

section \<open>The form handler\<close>

text \<open>
  \<open>RetentionModal\<close> (lines 75 to 119): the five text inputs and the retention type the
  modal was opened with.
\<close>

record modal =
  retention_type :: string
  teams :: string
  player_stats :: string
  player_salary :: string
  retention_amount :: string
  years_retained :: string

text \<open>
  An early return of \<open>on_submit\<close> sends one of five messages: for the salary (line 141),
  the years (153), an empty retention text (159), the percent value (167) and the numeric
  value (178).
\<close>

datatype rejection =
  InvalidSalary | InvalidYears | InvalidRetention | InvalidRetentionPercent | InvalidRetentionAmount

text \<open>A step is rejected with a message, raises an exception nothing catches, or goes on.\<close>

datatype 'a outcome = Rejected rejection | Uncaught py_exn | Done 'a

text \<open>What lines 162 to 183 assign.\<close>

record retention =
  retained_amount :: int
  remaining :: int
  pct :: double
  retention_display :: string

text \<open>What the embed of lines 188 to 213 is built from.\<close>

record result =
  t_from :: string
  t_to :: string
  player_name :: string
  salary_val :: int
  years :: int
  retained :: retention
  expire_year :: int
  stats_preview :: string
  footer :: string

text \<open>Lines 123 to 132: the two teams.\<close>

definition split_teams :: "string \<Rightarrow> string \<times> string" where
  "split_teams teams_value =
     (let raw = py_strip teams_value
      in case split_once ''->'' raw of
           Some (a, b) \<Rightarrow> (py_strip a, py_strip b)
         | None \<Rightarrow>
             (case split_once ''/'' raw of
                Some (a, b) \<Rightarrow> (py_strip a, py_strip b)
              | None \<Rightarrow>
                  (case split_once '','' raw of
                     Some (a, b) \<Rightarrow> (py_strip a, py_strip b)
                   | None \<Rightarrow> (raw, ''Unknown''))))"

text \<open>
  The team split in the words of the specification, to compare \<open>split_teams\<close> with: the
  separators are scanned in the order \<open>->\<close>, \<open>/\<close>, \<open>,\<close>, the text is cut at the first
  occurrence of the first separator it contains and both parts are trimmed; with no
  separator the second team is \<open>Unknown\<close>.
\<close>

definition team_split_spec :: "string \<Rightarrow> string \<times> string" where
  "team_split_spec teamsText =
     (let t = py_strip teamsText
      in case List.find (\<lambda>sep. py_find sep t \<noteq> None) [''->'', ''/'', '',''] of
           None \<Rightarrow> (t, ''Unknown'')
         | Some sep \<Rightarrow>
             (let k = the (py_find sep t)
              in (py_strip (take k t), py_strip (drop (k + length sep) t))))"

text \<open>Lines 148 to 154: the years, \<open>None\<close> when the \<open>except\<close> clause is reached.\<close>

definition parse_years :: "string \<Rightarrow> int option" where
  "parse_years years_value =
     (let cleaned = clean_int_text (py_strip years_value)
      in case py_int (if cleaned = [] then ''0'' else cleaned) of
           None \<Rightarrow> None
         | Some y \<Rightarrow> if y < 0 then None else Some y)"

text \<open>\<open>re.sub(r"[^\d\.-]", "", s)\<close> (line 157).\<close>

definition clean_retention_text :: "string \<Rightarrow> string" where
  "clean_retention_text s = filter (\<lambda>c. py_isdigit c \<or> c = CHR ''.'' \<or> c = CHR ''-'') s"

text \<open>
  Lines 163 to 172: retention as a percentage of the salary. Were the quotient
  \<open>pct / 100.0\<close> infinite, the product would be infinite or not a number and
  \<open>math.floor\<close> would raise.
\<close>

definition percent_retention :: "int \<Rightarrow> string \<Rightarrow> retention outcome" where
  "percent_retention salary retention_raw =
     (case py_float retention_raw of
        None \<Rightarrow> Rejected InvalidRetentionPercent
      | Some parsed \<Rightarrow>
          (let p = clamp_pct parsed
           in case int_to_float salary of
                Inl e \<Rightarrow> Uncaught e
              | Inr s \<Rightarrow>
                  (case fdiv p 100 of
                     Finite q \<Rightarrow>
                       (case py_floor (fmul s q) of
                          Inl e \<Rightarrow> Uncaught e
                        | Inr r \<Rightarrow>
                            Done \<lparr>retained_amount = r, remaining = salary - r, pct = Finite p,
                              retention_display = fmt2 (Finite p) @ ''%''\<rparr>)
                   | PosInf \<Rightarrow> Uncaught (if s = 0 then ValueError else OverflowError)
                   | NegInf \<Rightarrow> Uncaught (if s = 0 then ValueError else OverflowError))))"

text \<open>Lines 174 to 183: retention as an amount.\<close>

definition numeric_retention :: "int \<Rightarrow> string \<Rightarrow> retention outcome" where
  "numeric_retention salary retention_raw =
     (case py_float retention_raw of
        None \<Rightarrow> Rejected InvalidRetentionAmount
      | Some parsed \<Rightarrow>
          (case py_trunc parsed of
             Inl e \<Rightarrow> Rejected InvalidRetentionAmount
           | Inr r0 \<Rightarrow>
               (let r = max 0 r0; rest = max 0 (salary - r)
                in case (if 0 < salary
                         then (case int_truediv r salary of
                                 Inl e \<Rightarrow> Inl e
                               | Inr q \<Rightarrow> Inr (fmul q 100))
                         else Inr (Finite 0)) of
                     Inl e \<Rightarrow> Uncaught e
                   | Inr p \<Rightarrow>
                       Done \<lparr>retained_amount = r, remaining = rest, pct = p,
                         retention_display =
                           ''$'' @ format_currency r @ '' ('' @ fmt2 p @ ''%)''\<rparr>)))"

text \<open>Line 211: the stats shown in the embed.\<close>

definition stats_preview_of :: "string \<Rightarrow> string" where
  "stats_preview_of stats_text =
     (if length stats_text \<le> 1000 then stats_text else take 997 stats_text @ ''...'')"

text \<open>
  \<open>RetentionModal.on_submit\<close> (lines 121 to 215). \<open>now_year\<close> is \<open>datetime.now().year\<close>.
\<close>

definition on_submit :: "modal \<Rightarrow> int \<Rightarrow> result outcome" where
  "on_submit m now_year =
     (let (from_team, to_team) = split_teams (teams m);
          stats_text = py_strip (player_stats m);
          name = extract_player_name stats_text;
          salary_raw = py_strip (player_salary m)
      in case parse_salary_to_int salary_raw of
           None \<Rightarrow> Rejected InvalidSalary
         | Some salary \<Rightarrow>
             (case parse_years (years_retained m) of
                None \<Rightarrow> Rejected InvalidYears
              | Some y \<Rightarrow>
                  (let retention_raw = clean_retention_text (py_strip (retention_amount m))
                   in if retention_raw = [] then Rejected InvalidRetention
                      else case (if retention_type m = ''percent''
                                 then percent_retention salary retention_raw
                                 else numeric_retention salary retention_raw) of
                             Rejected why \<Rightarrow> Rejected why
                           | Uncaught e \<Rightarrow> Uncaught e
                           | Done r \<Rightarrow>
                               Done \<lparr>t_from = from_team, t_to = to_team, player_name = name,
                                 salary_val = salary, years = y, retained = r,
                                 expire_year = now_year + y,
                                 stats_preview = stats_preview_of stats_text,
                                 footer = (if retention_type m = ''percent'' then ''Percent''
                                           else ''Numeric'')\<rparr>)))"

section \<open>Properties\<close>

subsection \<open>Cleaning and stripping\<close>

lemma filter_dropWhile_disjoint:
  "(\<And>x. Q x \<Longrightarrow> \<not> P x) \<Longrightarrow> filter P (dropWhile Q xs) = filter P xs"
  by (induction xs) auto

lemma filter_py_strip:
  assumes "\<And>c. py_isspace c \<Longrightarrow> \<not> P c"
  shows "filter P (py_strip s) = filter P s"
proof -
  have "filter P (py_strip s) = rev (filter P (dropWhile py_isspace (rev (dropWhile py_isspace s))))"
    by (simp add: py_strip_def rev_filter)
  also have "\<dots> = rev (filter P (rev (dropWhile py_isspace s)))"
    using assms by (simp add: filter_dropWhile_disjoint)
  also have "\<dots> = filter P (dropWhile py_isspace s)"
    by (simp add: rev_filter)
  also have "\<dots> = filter P s"
    using assms by (simp add: filter_dropWhile_disjoint)
  finally show ?thesis .
qed

lemma clean_int_text_strip: "clean_int_text (py_strip s) = clean_int_text s"
  unfolding clean_int_text_def
  by (rule filter_py_strip) (auto simp: py_isspace_def py_isdigit_def)

subsection \<open>Salary\<close>

lemma percent_retention_rejects:
  "percent_retention s t = Rejected why \<Longrightarrow> why = InvalidRetentionPercent"
  by (simp add: percent_retention_def Let_def split: option.splits sum.splits double.splits)

lemma numeric_retention_rejects:
  "numeric_retention s t = Rejected why \<Longrightarrow> why = InvalidRetentionAmount"
  by (simp add: numeric_retention_def Let_def split: option.splits sum.splits if_splits)

lemma on_submit_salary_rejected:
  "on_submit m now = Rejected InvalidSalary \<longleftrightarrow>
     parse_salary_to_int (py_strip (player_salary m)) = None"
  by (auto simp: on_submit_def Let_def split: prod.splits option.splits outcome.splits
      dest: percent_retention_rejects numeric_retention_rejects)

lemma parse_salary_None_iff:
  "parse_salary_to_int s = None \<longleftrightarrow>
     clean_int_text s \<in> {[], ''-'', ''--''} \<or> py_int (clean_int_text s) = None"
  by (auto simp: parse_salary_to_int_def Let_def clean_int_text_def)

text \<open>
  Claim C5. Salary parsing removes every character that is not a digit or a minus sign
  and fails exactly when what is left is empty, \<open>-\<close>, \<open>--\<close> or not an integer; the
  handler then answers with the salary message, and with no other input. \<open>$12,000,000\<close>
  and \<open>12000000\<close> give 12000000; the empty text and \<open>-\<close> are rejected.
\<close>

theorem parse_salary_to_int_spec:
  "clean_int_text s = filter (\<lambda>c. py_isdigit c \<or> c = CHR ''-'') s \<and>
   (parse_salary_to_int s = None \<longleftrightarrow>
      clean_int_text s \<in> {[], ''-'', ''--''} \<or> py_int (clean_int_text s) = None) \<and>
   parse_salary_to_int s =
     (if clean_int_text s \<in> {[], ''-'', ''--''} then None else py_int (clean_int_text s)) \<and>
   (on_submit m now = Rejected InvalidSalary \<longleftrightarrow>
      clean_int_text (player_salary m) \<in> {[], ''-'', ''--''} \<or>
      py_int (clean_int_text (player_salary m)) = None) \<and>
   parse_salary_to_int ''$12,000,000'' = Some 12000000 \<and>
   parse_salary_to_int ''12000000'' = Some 12000000 \<and>
   parse_salary_to_int [] = None \<and>
   parse_salary_to_int ''-'' = None"
proof -
  have a: "parse_salary_to_int s =
      (if clean_int_text s \<in> {[], ''-'', ''--''} then None else py_int (clean_int_text s))"
    by (auto simp: parse_salary_to_int_def Let_def clean_int_text_def)
  have b: "on_submit m now = Rejected InvalidSalary \<longleftrightarrow>
      clean_int_text (player_salary m) \<in> {[], ''-'', ''--''} \<or>
      py_int (clean_int_text (player_salary m)) = None"
    by (simp only: on_submit_salary_rejected parse_salary_None_iff clean_int_text_strip)
  have c: "parse_salary_to_int ''$12,000,000'' = Some 12000000"
    by (simp add: parse_salary_to_int_def clean_int_text_def py_isdigit_def py_int_def
        py_digits_def digits_val_def digit_val_def)
  have d: "parse_salary_to_int ''12000000'' = Some 12000000"
    by (simp add: parse_salary_to_int_def clean_int_text_def py_isdigit_def py_int_def
        py_digits_def digits_val_def digit_val_def)
  have e: "parse_salary_to_int [] = None" "parse_salary_to_int ''-'' = None"
    by (simp_all add: parse_salary_to_int_def clean_int_text_def py_isdigit_def)
  have z: "clean_int_text s = filter (\<lambda>c. py_isdigit c \<or> c = CHR ''-'') s"
    by (simp add: clean_int_text_def)
  have n: "parse_salary_to_int s = None \<longleftrightarrow>
      clean_int_text s \<in> {[], ''-'', ''--''} \<or> py_int (clean_int_text s) = None"
    by (rule parse_salary_None_iff)
  show ?thesis
    by (intro conjI) (rule z n a b c d e)+
qed

subsection \<open>Stats preview\<close>

text \<open>The two cases of the preview of line 211, on any text.\<close>

lemma stats_preview_of_cases:
  "(length s \<le> 1000 \<longrightarrow> stats_preview_of s = s) \<and>
   (1000 < length s \<longrightarrow>
      stats_preview_of s = take 997 s @ ''...'' \<and> length (stats_preview_of s) = 1000 \<and>
      drop 997 (stats_preview_of s) = ''...'')"
  by (auto simp: stats_preview_of_def)

subsection \<open>Rounding to binary64\<close>

lemma two_powi_pos: "0 < (2::rat) powi e"
  by simp

lemma two_powi_mono: "e \<le> e' \<Longrightarrow> (2::rat) powi e \<le> 2 powi e'"
  by (rule power_int_increasing) simp_all

lemma two_powi_strict_mono: "e < e' \<Longrightarrow> (2::rat) powi e < 2 powi e'"
  by (rule power_int_strict_increasing) simp_all

lemma two_powi_add: "(2::rat) powi (a + b) = 2 powi a * 2 powi b"
  by (simp add: power_int_add)

lemma two_powi_diff: "(2::rat) powi (a - b) = 2 powi a / 2 powi b"
  by (simp add: power_int_diff)

lemma bitlen_bounds_rat:
  assumes "0 < p"
  shows "(2::rat) powi (bitlen p - 1) \<le> of_int p" and "of_int p < (2::rat) powi (bitlen p)"
proof -
  from bitlen_bounds [OF assms] have a: "2 ^ nat (bitlen p - 1) \<le> p" and b: "p < 2 ^ nat (bitlen p)"
    by simp_all
  have ge1: "1 \<le> bitlen p"
    using assms bitlen_eq_zero_iff [of p] bitlen_nonneg [of p] by linarith
  have "(of_int (2 ^ nat (bitlen p - 1)) :: rat) \<le> of_int p"
    using a by (simp only: of_int_le_iff)
  then show "(2::rat) powi (bitlen p - 1) \<le> of_int p"
    using ge1 by (simp add: power_int_def)
  have "(of_int p :: rat) < of_int (2 ^ nat (bitlen p))"
    using b by (simp only: of_int_less_iff)
  then show "of_int p < (2::rat) powi (bitlen p)"
    using ge1 by (simp add: power_int_def)
qed

lemma ilog2_bounds:
  assumes "0 < a"
  shows "2 powi (ilog2 a) \<le> a" and "a < 2 powi (ilog2 a + 1)"
proof -
  obtain p q where pq: "quotient_of a = (p, q)" by (cases "quotient_of a")
  then have q: "0 < q" and a: "a = of_int p / of_int q"
    by (simp_all add: quotient_of_denom_pos quotient_of_div)
  from assms a q have p: "0 < p"
    by (simp add: zero_less_divide_iff)
  define k where "k = bitlen p - bitlen q"
  have il: "ilog2 a = (if 2 powi k \<le> a then k else k - 1)"
    by (simp add: ilog2_def pq k_def Let_def)
  have qpos: "0 < (of_int q :: rat)" using q by simp
  have lo: "2 powi (k - 1) \<le> a"
  proof -
    have "2 powi (k - 1) * of_int q \<le> (2::rat) powi (k - 1) * 2 powi (bitlen q)"
      using bitlen_bounds_rat(2) [OF q] by (intro mult_left_mono) simp_all
    also have "\<dots> = 2 powi (bitlen p - 1)"
      by (simp add: k_def flip: two_powi_add)
    also have "\<dots> \<le> of_int p" by (rule bitlen_bounds_rat(1) [OF p])
    finally show ?thesis using qpos by (simp add: a pos_le_divide_eq)
  qed
  have hi: "a < 2 powi (k + 1)"
  proof -
    have "of_int p < (2::rat) powi (bitlen p)" by (rule bitlen_bounds_rat(2) [OF p])
    also have "\<dots> = 2 powi (k + 1) * 2 powi (bitlen q - 1)"
      by (simp add: k_def flip: two_powi_add)
    also have "\<dots> \<le> 2 powi (k + 1) * of_int q"
      using bitlen_bounds_rat(1) [OF q] by (intro mult_left_mono) simp_all
    finally show ?thesis using qpos by (simp add: a pos_divide_less_eq)
  qed
  show "2 powi (ilog2 a) \<le> a" using lo by (simp add: il)
  show "a < 2 powi (ilog2 a + 1)" using hi by (auto simp: il not_le)
qed

lemma ilog2_unique:
  assumes "0 < a" "2 powi e \<le> a" "a < 2 powi (e + 1)"
  shows "ilog2 a = e"
proof (rule ccontr)
  assume ne: "ilog2 a \<noteq> e"
  note b = ilog2_bounds [OF assms(1)]
  show False
  proof (cases "ilog2 a < e")
    case True
    then have "(2::rat) powi (ilog2 a + 1) \<le> 2 powi e" by (intro two_powi_mono) simp
    with b(2) assms(2) show False by simp
  next
    case False
    with ne have "(2::rat) powi (e + 1) \<le> 2 powi (ilog2 a)" by (intro two_powi_mono) simp
    with b(1) assms(3) show False by simp
  qed
qed

lemma ilog2_mono:
  assumes "0 < a" "a \<le> b"
  shows "ilog2 a \<le> ilog2 b"
proof (rule ccontr)
  assume "\<not> ilog2 a \<le> ilog2 b"
  then have "(2::rat) powi (ilog2 b + 1) \<le> 2 powi (ilog2 a)" by (intro two_powi_mono) simp
  moreover have "0 < b" using assms by simp
  ultimately show False
    using ilog2_bounds(1) [OF assms(1)] ilog2_bounds(2) [OF \<open>0 < b\<close>] assms(2) by simp
qed

lemma rhe_cases:
  "round_half_even x = \<lfloor>x\<rfloor> \<or> round_half_even x = \<lfloor>x\<rfloor> + 1"
  by (simp add: round_half_even_def Let_def)

lemma rhe_upper: "of_int (round_half_even x) \<le> x + 1 / 2"
proof -
  define f where "f = \<lfloor>x\<rfloor>"
  have "of_int f \<le> x" by (simp add: f_def)
  then show ?thesis
    unfolding round_half_even_def Let_def f_def [symmetric]
    by (cases "x - of_int f < 1 / 2"; cases "1 / 2 < x - of_int f"; cases "even f") simp_all
qed

lemma rhe_lower: "x - 1 / 2 \<le> of_int (round_half_even x)"
proof -
  define f where "f = \<lfloor>x\<rfloor>"
  have "x < of_int f + 1" unfolding f_def by linarith
  then show ?thesis
    unfolding round_half_even_def Let_def f_def [symmetric]
    by (cases "x - of_int f < 1 / 2"; cases "1 / 2 < x - of_int f"; cases "even f") simp_all
qed

lemma rhe_of_int [simp]: "round_half_even (of_int n) = n"
  by (simp add: round_half_even_def)

lemma rhe_le_int:
  assumes "x \<le> of_int n"
  shows "round_half_even x \<le> n"
proof (cases "x = of_int n")
  case True
  then show ?thesis by simp
next
  case False
  with assms have "x < of_int n" by simp
  then have "\<lfloor>x\<rfloor> < n" by (simp add: floor_less_iff)
  with rhe_cases [of x] show ?thesis by auto
qed

lemma rhe_ge_int:
  assumes "of_int n \<le> x"
  shows "n \<le> round_half_even x"
proof -
  from assms have "n \<le> \<lfloor>x\<rfloor>" by (simp add: le_floor_iff)
  with rhe_cases [of x] show ?thesis by auto
qed

lemma rhe_eqI:
  assumes "\<bar>x - of_int n\<bar> < 1 / 2"
  shows "round_half_even x = n"
proof (cases "of_int n \<le> x")
  case True
  with assms have "x < of_int n + 1 / 2" by simp
  with True have f: "\<lfloor>x\<rfloor> = n" by (intro floor_unique) simp_all
  with \<open>x < of_int n + 1 / 2\<close> show ?thesis
    by (simp add: round_half_even_def Let_def)
next
  case False
  with assms have lo: "of_int n - 1 / 2 < x" and hi: "x < of_int n" by simp_all
  then have f: "\<lfloor>x\<rfloor> = n - 1" by (intro floor_unique) simp_all
  with lo show ?thesis
    by (simp add: round_half_even_def Let_def)
qed

lemma ulp_pos: "0 < ulp a"
  by (simp add: ulp_def)

text \<open>The value of \<open>rnd\<close> at a positive number whose binade is known.\<close>

lemma rnd_normal:
  assumes "2 powi e \<le> x" "x < 2 powi (e + 1)" "- 1022 \<le> e" "e \<le> 1022"
  shows "rnd x = Finite (of_int (round_half_even (x / 2 powi (e - 52))) * 2 powi (e - 52))"
proof -
  have xpos: "0 < x" using assms(1) two_powi_pos [of e] by linarith
  have il: "ilog2 x = e" using xpos assms(1,2) by (rule ilog2_unique)
  have u: "ulp \<bar>x\<bar> = 2 powi (e - 52)"
    using xpos assms(3) by (simp add: ulp_def il max_def)
  define r where "r = of_int (round_half_even (x / 2 powi (e - 52))) * (2::rat) powi (e - 52)"
  have "x / 2 powi (e - 52) < 2 powi (e + 1) / 2 powi (e - 52)"
    using assms(2) by (simp add: divide_strict_right_mono)
  also have "\<dots> = 2 powi (e + 1 - (e - 52))" by (simp only: two_powi_diff)
  also have "\<dots> = 2 powi 53" by simp
  also have "\<dots> = of_int (2 ^ 53)" by simp
  finally have "round_half_even (x / 2 powi (e - 52)) \<le> 2 ^ 53"
    by (intro rhe_le_int) simp
  then have "(of_int (round_half_even (x / 2 powi (e - 52))) :: rat) \<le> of_int (2 ^ 53)"
    by (simp only: of_int_le_iff)
  then have "r \<le> of_int (2 ^ 53) * 2 powi (e - 52)"
    unfolding r_def by (intro mult_right_mono) simp_all
  also have "\<dots> = 2 powi 53 * 2 powi (e - 52)" by simp
  also have "\<dots> = 2 powi (53 + (e - 52))" by (simp only: two_powi_add)
  also have "\<dots> = 2 powi (e + 1)" by (simp add: algebra_simps)
  also have "\<dots> < 2 powi 1024" using assms(4) by (intro two_powi_strict_mono) simp
  finally have "\<not> 2 powi 1024 \<le> r" by simp
  then show ?thesis
    using xpos u by (simp add: rnd_def Let_def r_def)
qed

lemma rnd_neg: "rnd (- x) = fneg (rnd x)"
  by (simp add: rnd_def Let_def fneg_def)

lemma rnd_nonneg_cases:
  assumes "0 \<le> x"
  shows "rnd x = PosInf \<or> (\<exists>r. rnd x = Finite r \<and> 0 \<le> r)"
proof (cases "x = 0")
  case True
  then show ?thesis by (simp add: rnd_def)
next
  case False
  with assms have xpos: "0 < x" by simp
  have "0 \<le> x / ulp \<bar>x\<bar>" using xpos ulp_pos [of "\<bar>x\<bar>"] by simp
  then have "0 \<le> round_half_even (x / ulp \<bar>x\<bar>)"
    by (intro rhe_ge_int) simp
  then have "0 \<le> (of_int (round_half_even (x / ulp \<bar>x\<bar>)) :: rat) * ulp \<bar>x\<bar>"
    using ulp_pos [of "\<bar>x\<bar>"] by simp
  then show ?thesis
    using xpos by (simp add: rnd_def Let_def)
qed

lemma ulp_small:
  assumes "0 < x" "x < 2 powi 53"
  obtains k :: nat where "ulp x = 1 / 2 ^ k"
proof -
  have "ilog2 x \<le> 52"
  proof (rule ccontr)
    assume "\<not> ilog2 x \<le> 52"
    then have "(2::rat) powi 53 \<le> 2 powi (ilog2 x)" by (intro two_powi_mono) simp
    with ilog2_bounds(1) [OF assms(1)] assms(2) show False by simp
  qed
  then have j: "max (ilog2 x) (- 1022) - 52 \<le> 0" by simp
  define k where "k = nat (- (max (ilog2 x) (- 1022) - 52))"
  have "max (ilog2 x) (- 1022) - 52 = - int k" using j by (simp add: k_def)
  then have "ulp x = 2 powi (- int k)" by (simp add: ulp_def)
  also have "\<dots> = 1 / 2 ^ k" by (simp add: power_int_minus_divide)
  finally show ?thesis by (rule that)
qed

lemma rnd_le_int:
  assumes "0 < x" "x \<le> of_int n" "n < 2 ^ 53"
  shows "\<exists>r. rnd x = Finite r \<and> 0 \<le> r \<and> r \<le> of_int n"
proof -
  have "(of_int n :: rat) < of_int (2 ^ 53)" using assms(3) by (simp only: of_int_less_iff)
  then have n53: "(of_int n :: rat) < 2 powi 53" by simp
  with assms(2) have "x < 2 powi 53" by simp
  with assms(1) obtain k :: nat where u: "ulp x = 1 / 2 ^ k" by (rule ulp_small)
  define N where "N = n * 2 ^ k"
  define r where "r = of_int (round_half_even (x / ulp x)) * ulp x"
  have "x / ulp x = x * 2 ^ k" by (simp add: u)
  also have "\<dots> \<le> of_int n * 2 ^ k" using assms(2) by (intro mult_right_mono) simp_all
  also have "\<dots> = of_int N" by (simp add: N_def)
  finally have "round_half_even (x / ulp x) \<le> N" by (rule rhe_le_int)
  then have "(of_int (round_half_even (x / ulp x)) :: rat) \<le> of_int N"
    by (simp only: of_int_le_iff)
  then have "r \<le> of_int N * ulp x"
    unfolding r_def using ulp_pos [of x] by (intro mult_right_mono) simp_all
  also have "\<dots> = of_int n" by (simp add: N_def u)
  finally have le: "r \<le> of_int n" .
  have "0 \<le> x / ulp x" using assms(1) ulp_pos [of x] by simp
  then have "0 \<le> round_half_even (x / ulp x)" by (intro rhe_ge_int) simp
  then have ge: "0 \<le> r" unfolding r_def using ulp_pos [of x] by simp
  from le n53 have "\<not> 2 powi 1024 \<le> r"
    using two_powi_strict_mono [of 53 1024] by simp
  then have "rnd x = Finite r"
    using assms(1) by (simp add: rnd_def Let_def r_def)
  with le ge show ?thesis by blast
qed

lemma rnd_of_int_pos:
  assumes "0 < n" "n < 2 ^ 53"
  shows "rnd (of_int n) = Finite (of_int n)"
proof -
  have "(of_int n :: rat) < of_int (2 ^ 53)" using assms(2) by (simp only: of_int_less_iff)
  then have n53: "(of_int n :: rat) < 2 powi 53" by simp
  have pos: "0 < (of_int n :: rat)" using assms(1) by simp
  from pos n53 obtain k :: nat where u: "ulp (of_int n) = 1 / 2 ^ k" by (rule ulp_small)
  have "of_int n / ulp (of_int n) = (of_int (n * 2 ^ k) :: rat)" by (simp add: u)
  then have "round_half_even (of_int n / ulp (of_int n)) = n * 2 ^ k"
    by (simp only: rhe_of_int)
  then have r: "of_int (round_half_even (of_int n / ulp (of_int n))) * ulp (of_int n) = (of_int n :: rat)"
    by (simp add: u)
  have "\<not> 2 powi 1024 \<le> (of_int n :: rat)"
    using n53 two_powi_strict_mono [of 53 1024] by simp
  then show ?thesis
    using pos by (simp add: rnd_def Let_def r)
qed

lemma rnd_of_int:
  assumes "\<bar>n\<bar> < 2 ^ 53"
  shows "rnd (of_int n) = Finite (of_int n)"
proof -
  consider "n = 0" | "0 < n" | "n < 0" by linarith
  then show ?thesis
  proof cases
    case 1
    then show ?thesis by (simp add: rnd_def)
  next
    case 2
    with assms show ?thesis by (intro rnd_of_int_pos) simp_all
  next
    case 3
    with assms have "rnd (of_int (- n)) = Finite (of_int (- n))"
      by (intro rnd_of_int_pos) simp_all
    then have "fneg (rnd (- of_int (- n))) = fneg (fneg (Finite (of_int (- n))))"
      by (simp only: rnd_neg of_int_minus)
    then show ?thesis by (simp add: fneg_def rnd_neg split: double.splits)
  qed
qed

lemma rnd_numeral:
  "numeral k < (2::int) ^ 53 \<Longrightarrow> rnd (numeral k) = Finite (numeral k)"
  using rnd_of_int [of "numeral k"] by simp

subsection \<open>Evaluation at concrete inputs\<close>

lemma rnd_0 [simp]: "rnd 0 = Finite 0" by (simp add: rnd_def)
lemma rnd_1 [simp]: "rnd 1 = Finite 1" using rnd_of_int [of 1] by simp
lemma rhe_numeral [simp]: "round_half_even (numeral k) = numeral k"
  using rhe_of_int [of "numeral k"] by simp
lemma rhe_0 [simp]: "round_half_even 0 = 0" using rhe_of_int [of 0] by simp

lemmas eval_defs =
  py_strip_def py_isspace_def py_isdigit_def clean_int_text_def clean_retention_text_def
  parse_salary_to_int_def parse_years_def py_int_def py_digits_def digits_val_def digit_val_def
  py_float_def py_float_unsigned_def clamp_pct_def int_to_float_def finite_or_overflow_def
  fdiv_def fmul_def py_floor_def py_trunc_def int_truediv_def fmt2_def two_digits_def
  format_currency_def percent_retention_def numeric_retention_def char_of_def bit_0

subsection \<open>Years, and the stripped stats text\<close>

lemmas name_defs =
  extract_player_name_def stripped_lines_def py_splitlines_def py_islinebreak_def
  name_pattern_def after_keyword_def ci_prefix_def ascii_lower_def is_sep_def group_at_def
  py_contains_def split_first_def

lemmas submit_defs = on_submit_def split_teams_def stats_preview_of_def

lemma dropWhile_append_if:
  "dropWhile P (xs @ ys) = (if \<forall>x\<in>set xs. P x then dropWhile P ys else dropWhile P xs @ ys)"
  by (induction xs) auto

lemma py_strip_leading:
  assumes "py_isspace c"
  shows "py_strip (replicate n c @ s) = py_strip s"
  using assms by (simp add: py_strip_def dropWhile_append_if)

lemma on_submit_stats_cong:
  "py_strip s = py_strip (player_stats m) \<Longrightarrow>
   on_submit (m\<lparr>player_stats := s\<rparr>) now = on_submit m now"
  by (simp add: on_submit_def Let_def split: prod.splits option.splits)

lemma on_submit_DoneD:
  assumes "on_submit m now = Done r"
  shows "parse_salary_to_int (py_strip (player_salary m)) = Some (salary_val r)"
    and "parse_years (years_retained m) = Some (years r)"
    and "expire_year r = now + years r"
    and "player_name r = extract_player_name (py_strip (player_stats m))"
    and "stats_preview r = stats_preview_of (py_strip (player_stats m))"
    and "(t_from r, t_to r) = split_teams (teams m)"
    and "clean_retention_text (py_strip (retention_amount m)) \<noteq> []"
    and "(if retention_type m = ''percent''
          then percent_retention (salary_val r) (clean_retention_text (py_strip (retention_amount m)))
          else numeric_retention (salary_val r) (clean_retention_text (py_strip (retention_amount m))))
         = Done (retained r)"
  using assms
  by (auto simp: on_submit_def Let_def split: prod.splits option.splits outcome.splits if_splits)

lemma on_submit_years_rejected:
  "on_submit m now = Rejected InvalidYears \<longleftrightarrow>
     parse_salary_to_int (py_strip (player_salary m)) \<noteq> None \<and>
     parse_years (years_retained m) = None"
  by (auto simp: on_submit_def Let_def split: prod.splits option.splits outcome.splits
      dest: percent_retention_rejects numeric_retention_rejects)

lemma parse_years_None_iff:
  "parse_years v = None \<longleftrightarrow>
     (let c = clean_int_text v; t = (if c = [] then ''0'' else c)
      in py_int t = None \<or> (\<exists>y. py_int t = Some y \<and> y < 0))"
  by (auto simp: parse_years_def Let_def clean_int_text_strip split: option.splits)

lemma parse_years_Some: "parse_years v = Some y \<Longrightarrow> 0 \<le> y"
  by (auto simp: parse_years_def Let_def split: option.splits if_splits)

lemma parse_years_empty: "clean_int_text v = [] \<Longrightarrow> parse_years v = Some 0"
  by (simp add: parse_years_def Let_def clean_int_text_strip py_int_def py_digits_def
      py_isdigit_def digits_val_def digit_val_def)

lemma parse_years_Some_iff:
  "parse_years v = Some y \<longleftrightarrow>
     py_int (if clean_int_text v = [] then ''0'' else clean_int_text v) = Some y \<and> 0 \<le> y"
  by (auto simp: parse_years_def Let_def clean_int_text_strip split: option.splits)

lemma py_int_digits:
  assumes "ds \<noteq> []" "list_all py_isdigit ds" "length ds \<le> 4300"
  shows "py_int ds = Some (digits_val ds)" and "py_int (CHR ''-'' # ds) = Some (- digits_val ds)"
proof -
  from assms(1,2) have "py_isdigit (hd ds)" by (cases ds) simp_all
  then have "hd ds \<noteq> CHR ''-''" by (auto simp: py_isdigit_def)
  with assms show "py_int ds = Some (digits_val ds)"
    by (cases ds) (simp_all add: py_int_def py_digits_def)
  from assms show "py_int (CHR ''-'' # ds) = Some (- digits_val ds)"
    by (simp add: py_int_def py_digits_def)
qed

text \<open>
  Claim C6. Years parsing removes every character that is not a digit or a minus sign
  and reads an empty rest as 0; it succeeds with \<open>y\<close> exactly when the rest reads as the
  integer \<open>y\<close> and \<open>y\<close> is not negative, where a run of 1 to 4300 digits reads as its
  decimal value and, after a minus sign, as the negative of it. It fails exactly when the
  rest is not an integer or is a negative one, and the handler (once the salary is
  accepted) then answers with the years message. When the handler succeeds, the years
  retained are the integer the cleaned text reads as, and the expiry year is the current
  year plus the years retained.
\<close>

theorem parse_years_spec:
  "(parse_years v = None \<longleftrightarrow>
      (let c = clean_int_text v; t = (if c = [] then ''0'' else c)
       in py_int t = None \<or> (\<exists>y. py_int t = Some y \<and> y < 0))) \<and>
   (clean_int_text v = [] \<longrightarrow> parse_years v = Some 0) \<and>
   (on_submit m now = Rejected InvalidYears \<longleftrightarrow>
      parse_salary_to_int (py_strip (player_salary m)) \<noteq> None \<and>
      parse_years (years_retained m) = None) \<and>
   (on_submit m now = Done r \<longrightarrow>
      parse_years (years_retained m) = Some (years r) \<and> 0 \<le> years r \<and>
      expire_year r = now + years r) \<and>
   (parse_years v = Some y \<longleftrightarrow>
      py_int (if clean_int_text v = [] then ''0'' else clean_int_text v) = Some y \<and> 0 \<le> y) \<and>
   (on_submit m now = Done r \<longrightarrow>
      py_int (if clean_int_text (years_retained m) = [] then ''0''
              else clean_int_text (years_retained m)) = Some (years r) \<and>
      expire_year r = now + years r) \<and>
   clean_int_text v = filter (\<lambda>c. py_isdigit c \<or> c = CHR ''-'') v \<and>
   (ds \<noteq> [] \<and> list_all py_isdigit ds \<and> length ds \<le> 4300 \<longrightarrow>
      py_int ds = Some (digits_val ds) \<and> py_int (CHR ''-'' # ds) = Some (- digits_val ds)) \<and>
   digits_val [] = 0 \<and> digits_val (ds @ [c]) = 10 * digits_val ds + digit_val c \<and>
   map digit_val ''0123456789'' = [0, 1, 2, 3, 4, 5, 6, 7, 8, 9] \<and>
   parse_years ''12'' = Some 12 \<and> parse_years ''2 yrs'' = Some 2 \<and>
   parse_years ''0'' = Some 0 \<and> parse_years ''-0'' = Some 0 \<and>
   parse_years ''-1'' = None \<and> parse_years ''1-2'' = None \<and> parse_years [] = Some 0"
proof -
  have a: "parse_years v = None \<longleftrightarrow>
      (let c = clean_int_text v; t = (if c = [] then ''0'' else c)
       in py_int t = None \<or> (\<exists>y. py_int t = Some y \<and> y < 0))"
    by (rule parse_years_None_iff)
  have b: "clean_int_text v = [] \<longrightarrow> parse_years v = Some 0"
    by (simp add: parse_years_empty)
  have c: "on_submit m now = Rejected InvalidYears \<longleftrightarrow>
      parse_salary_to_int (py_strip (player_salary m)) \<noteq> None \<and>
      parse_years (years_retained m) = None"
    by (rule on_submit_years_rejected)
  have d: "on_submit m now = Done r \<longrightarrow>
      parse_years (years_retained m) = Some (years r) \<and> 0 \<le> years r \<and>
      expire_year r = now + years r"
    using on_submit_DoneD(2,3) [of m now r] parse_years_Some [of "years_retained m" "years r"]
    by blast
  have e: "parse_years v = Some y \<longleftrightarrow>
      py_int (if clean_int_text v = [] then ''0'' else clean_int_text v) = Some y \<and> 0 \<le> y"
    by (rule parse_years_Some_iff)
  have f: "on_submit m now = Done r \<longrightarrow>
      py_int (if clean_int_text (years_retained m) = [] then ''0''
              else clean_int_text (years_retained m)) = Some (years r) \<and>
      expire_year r = now + years r"
    using on_submit_DoneD(2,3) [of m now r]
      parse_years_Some_iff [of "years_retained m" "years r"]
    by blast
  have g: "clean_int_text v = filter (\<lambda>c. py_isdigit c \<or> c = CHR ''-'') v"
    by (simp add: clean_int_text_def)
  have h: "ds \<noteq> [] \<and> list_all py_isdigit ds \<and> length ds \<le> 4300 \<longrightarrow>
      py_int ds = Some (digits_val ds) \<and> py_int (CHR ''-'' # ds) = Some (- digits_val ds)"
    using py_int_digits [of ds] by blast
  have i: "digits_val [] = 0" "digits_val (ds @ [c]) = 10 * digits_val ds + digit_val c"
    by (simp_all add: digits_val_def)
  have j: "map digit_val ''0123456789'' = [0, 1, 2, 3, 4, 5, 6, 7, 8, 9]"
    by (simp add: digit_val_def)
  have k: "parse_years ''12'' = Some 12" "parse_years ''2 yrs'' = Some 2"
    "parse_years ''0'' = Some 0" "parse_years ''-0'' = Some 0"
    "parse_years ''-1'' = None" "parse_years ''1-2'' = None" "parse_years [] = Some 0"
    by (simp_all add: eval_defs)
  show ?thesis
    by (intro conjI) (rule a b c d e f g h i j k)+
qed

lemma smith_modal:
  "on_submit
     \<lparr>retention_type = ''percent'', teams = ''Rangers -> Devils'',
      player_stats = ''Name: J. Smith'', player_salary = ''$8,000,000'',
      retention_amount = ''100'', years_retained = ''2''\<rparr> 2025 =
   Done \<lparr>t_from = ''Rangers'', t_to = ''Devils'', player_name = ''J. Smith'',
     salary_val = 8000000, years = 2,
     retained = \<lparr>retained_amount = 8000000, remaining = 0, pct = Finite 100,
       retention_display = ''100.00%''\<rparr>,
     expire_year = 2027, stats_preview = ''Name: J. Smith'', footer = ''Percent''\<rparr>"
  by (simp add: submit_defs name_defs eval_defs rnd_numeral)

theorem parse_years_spec_witness:
  "clean_int_text ''years'' = [] \<and> parse_years ''years'' = Some 0 \<and>
   parse_years ''-1'' = None \<and>
   on_submit
     \<lparr>retention_type = ''percent'', teams = ''Rangers -> Devils'',
      player_stats = ''Name: J. Smith'', player_salary = ''$8,000,000'',
      retention_amount = ''100'', years_retained = ''2''\<rparr> 2025 =
   Done \<lparr>t_from = ''Rangers'', t_to = ''Devils'', player_name = ''J. Smith'',
     salary_val = 8000000, years = 2,
     retained = \<lparr>retained_amount = 8000000, remaining = 0, pct = Finite 100,
       retention_display = ''100.00%''\<rparr>,
     expire_year = 2027, stats_preview = ''Name: J. Smith'', footer = ''Percent''\<rparr> \<and>
   parse_years ''2'' = Some 2 \<and> 2025 + 2 = (2027 :: int) \<and>
   py_int ''2'' = Some 2 \<and>
   ''12'' \<noteq> [] \<and> list_all py_isdigit ''12'' \<and> length ''12'' \<le> 4300 \<and>
   py_int ''12'' = Some 12 \<and> py_int ''-12'' = Some (- 12) \<and> digits_val ''12'' = 12"
  using parse_years_spec [of "''years''"
      "\<lparr>retention_type = ''percent'', teams = ''Rangers -> Devils'',
        player_stats = ''Name: J. Smith'', player_salary = ''$8,000,000'',
        retention_amount = ''100'', years_retained = ''2''\<rparr>" 2025
      "\<lparr>t_from = ''Rangers'', t_to = ''Devils'', player_name = ''J. Smith'',
        salary_val = 8000000, years = 2,
        retained = \<lparr>retained_amount = 8000000, remaining = 0, pct = Finite 100,
          retention_display = ''100.00%''\<rparr>,
        expire_year = 2027, stats_preview = ''Name: J. Smith'', footer = ''Percent''\<rparr>"
      0 "''12''" "CHR ''0''"]
    smith_modal
  by (simp add: eval_defs)

text \<open>
  Claim C10. The stats text is stripped of leading and trailing whitespace first; the
  player name and the preview are both taken from the stripped text, so a stats field of
  more than 1000 characters whose stripped text has at most 1000 is shown untruncated.
\<close>

theorem stats_text_stripped:
  "on_submit m now = Done r \<longrightarrow>
     player_name r = extract_player_name (py_strip (player_stats m)) \<and>
     stats_preview r = stats_preview_of (py_strip (player_stats m)) \<and>
     (length (py_strip (player_stats m)) \<le> 1000 \<longrightarrow> stats_preview r = py_strip (player_stats m))"
  by (auto dest: on_submit_DoneD(4,5) simp: stats_preview_of_def)

lemma padded_strip:
  "py_strip (replicate 1000 (CHR '' '') @ ''Name: J. Smith'') = py_strip ''Name: J. Smith''"
  by (rule py_strip_leading) (simp add: py_isspace_def)

lemma padded_modal:
  "on_submit
     \<lparr>retention_type = ''percent'', teams = ''Rangers -> Devils'',
      player_stats = replicate 1000 (CHR '' '') @ ''Name: J. Smith'',
      player_salary = ''$8,000,000'', retention_amount = ''100'', years_retained = ''2''\<rparr> 2025 =
   Done \<lparr>t_from = ''Rangers'', t_to = ''Devils'', player_name = ''J. Smith'',
     salary_val = 8000000, years = 2,
     retained = \<lparr>retained_amount = 8000000, remaining = 0, pct = Finite 100,
       retention_display = ''100.00%''\<rparr>,
     expire_year = 2027, stats_preview = ''Name: J. Smith'', footer = ''Percent''\<rparr>"
  using on_submit_stats_cong [of "replicate 1000 (CHR '' '') @ ''Name: J. Smith''"
      "\<lparr>retention_type = ''percent'', teams = ''Rangers -> Devils'',
        player_stats = ''Name: J. Smith'', player_salary = ''$8,000,000'',
        retention_amount = ''100'', years_retained = ''2''\<rparr>" 2025]
    padded_strip smith_modal
  by simp

theorem stats_text_stripped_witness:
  "1000 < length (replicate 1000 (CHR '' '') @ ''Name: J. Smith'') \<and>
   py_strip (replicate 1000 (CHR '' '') @ ''Name: J. Smith'') = ''Name: J. Smith'' \<and>
   on_submit
     \<lparr>retention_type = ''percent'', teams = ''Rangers -> Devils'',
      player_stats = replicate 1000 (CHR '' '') @ ''Name: J. Smith'',
      player_salary = ''$8,000,000'', retention_amount = ''100'', years_retained = ''2''\<rparr> 2025 =
   Done \<lparr>t_from = ''Rangers'', t_to = ''Devils'', player_name = ''J. Smith'',
     salary_val = 8000000, years = 2,
     retained = \<lparr>retained_amount = 8000000, remaining = 0, pct = Finite 100,
       retention_display = ''100.00%''\<rparr>,
     expire_year = 2027, stats_preview = ''Name: J. Smith'', footer = ''Percent''\<rparr> \<and>
   extract_player_name ''Name: J. Smith'' = ''J. Smith'' \<and>
   stats_preview_of ''Name: J. Smith'' = ''Name: J. Smith''"
proof -
  have s: "py_strip (replicate 1000 (CHR '' '') @ ''Name: J. Smith'') = ''Name: J. Smith''"
    using padded_strip by (simp add: py_strip_def py_isspace_def)
  show ?thesis
    using stats_text_stripped [of
      "\<lparr>retention_type = ''percent'', teams = ''Rangers -> Devils'',
        player_stats = replicate 1000 (CHR '' '') @ ''Name: J. Smith'',
        player_salary = ''$8,000,000'', retention_amount = ''100'', years_retained = ''2''\<rparr>" 2025
      "\<lparr>t_from = ''Rangers'', t_to = ''Devils'', player_name = ''J. Smith'',
        salary_val = 8000000, years = 2,
        retained = \<lparr>retained_amount = 8000000, remaining = 0, pct = Finite 100,
          retention_display = ''100.00%''\<rparr>,
        expire_year = 2027, stats_preview = ''Name: J. Smith'', footer = ''Percent''\<rparr>"]
      padded_modal s
    by simp
qed

subsection \<open>Stats preview of an accepted form\<close>

lemma long_strip: "py_strip (CHR '' '' # replicate 1001 (CHR ''a'')) = replicate 1001 (CHR ''a'')"
  by (simp add: py_strip_def py_isspace_def)

lemma long_modal:
  "on_submit
     \<lparr>retention_type = ''percent'', teams = ''Rangers -> Devils'',
      player_stats = CHR '' '' # replicate 1001 (CHR ''a''),
      player_salary = ''$8,000,000'', retention_amount = ''100'', years_retained = ''2''\<rparr> 2025 =
   Done \<lparr>t_from = ''Rangers'', t_to = ''Devils'',
     player_name = extract_player_name (replicate 1001 (CHR ''a'')),
     salary_val = 8000000, years = 2,
     retained = \<lparr>retained_amount = 8000000, remaining = 0, pct = Finite 100,
       retention_display = ''100.00%''\<rparr>,
     expire_year = 2027, stats_preview = replicate 997 (CHR ''a'') @ ''...'',
     footer = ''Percent''\<rparr>"
  by (simp add: submit_defs eval_defs rnd_numeral)

lemma spaced_modal:
  "on_submit
     \<lparr>retention_type = ''percent'', teams = ''Rangers -> Devils'',
      player_stats = '' Name: J. Smith'', player_salary = ''$8,000,000'',
      retention_amount = ''100'', years_retained = ''2''\<rparr> 2025 =
   Done \<lparr>t_from = ''Rangers'', t_to = ''Devils'', player_name = ''J. Smith'',
     salary_val = 8000000, years = 2,
     retained = \<lparr>retained_amount = 8000000, remaining = 0, pct = Finite 100,
       retention_display = ''100.00%''\<rparr>,
     expire_year = 2027, stats_preview = ''Name: J. Smith'', footer = ''Percent''\<rparr>"
  by (simp add: submit_defs name_defs eval_defs rnd_numeral)

text \<open>
  Claim C9, amended. The preview is taken from the stats text stripped of leading and
  trailing whitespace (line 134): a stripped text of at most 1000 characters is shown
  unchanged; a longer one is cut to its first 997 characters followed by three dots, so
  a stripped text of 1001 characters is shown in 1000 characters that end with the three
  dots.
\<close>

theorem stats_preview_amended:
  "on_submit m now = Done r \<longrightarrow>
     (length (py_strip (player_stats m)) \<le> 1000 \<longrightarrow>
        stats_preview r = py_strip (player_stats m)) \<and>
     (1000 < length (py_strip (player_stats m)) \<longrightarrow>
        stats_preview r = take 997 (py_strip (player_stats m)) @ ''...'' \<and>
        length (stats_preview r) = 1000 \<and> drop 997 (stats_preview r) = ''...'') \<and>
     (length (py_strip (player_stats m)) = 1001 \<longrightarrow>
        length (stats_preview r) = 1000 \<and> drop 997 (stats_preview r) = ''...'')"
proof
  assume "on_submit m now = Done r"
  then have p: "stats_preview r = stats_preview_of (py_strip (player_stats m))"
    by (rule on_submit_DoneD(5))
  show "(length (py_strip (player_stats m)) \<le> 1000 \<longrightarrow>
        stats_preview r = py_strip (player_stats m)) \<and>
     (1000 < length (py_strip (player_stats m)) \<longrightarrow>
        stats_preview r = take 997 (py_strip (player_stats m)) @ ''...'' \<and>
        length (stats_preview r) = 1000 \<and> drop 997 (stats_preview r) = ''...'') \<and>
     (length (py_strip (player_stats m)) = 1001 \<longrightarrow>
        length (stats_preview r) = 1000 \<and> drop 997 (stats_preview r) = ''...'')"
    unfolding p using stats_preview_of_cases [of "py_strip (player_stats m)"] by simp
qed

theorem stats_preview_amended_witness:
  "on_submit
     \<lparr>retention_type = ''percent'', teams = ''Rangers -> Devils'',
      player_stats = CHR '' '' # replicate 1001 (CHR ''a''),
      player_salary = ''$8,000,000'', retention_amount = ''100'', years_retained = ''2''\<rparr> 2025 =
   Done \<lparr>t_from = ''Rangers'', t_to = ''Devils'',
     player_name = extract_player_name (replicate 1001 (CHR ''a'')),
     salary_val = 8000000, years = 2,
     retained = \<lparr>retained_amount = 8000000, remaining = 0, pct = Finite 100,
       retention_display = ''100.00%''\<rparr>,
     expire_year = 2027, stats_preview = replicate 997 (CHR ''a'') @ ''...'',
     footer = ''Percent''\<rparr> \<and>
   py_strip (CHR '' '' # replicate 1001 (CHR ''a'')) = replicate 1001 (CHR ''a'') \<and>
   length (replicate 1001 (CHR ''a'')) = 1001 \<and>
   1000 < length (replicate 1001 (CHR ''a'')) \<and>
   replicate 997 (CHR ''a'') @ ''...'' = take 997 (replicate 1001 (CHR ''a'')) @ ''...'' \<and>
   length (replicate 997 (CHR ''a'') @ ''...'') = 1000 \<and>
   drop 997 (replicate 997 (CHR ''a'') @ ''...'') = ''...'' \<and>
   on_submit
     \<lparr>retention_type = ''percent'', teams = ''Rangers -> Devils'',
      player_stats = '' Name: J. Smith'', player_salary = ''$8,000,000'',
      retention_amount = ''100'', years_retained = ''2''\<rparr> 2025 =
   Done \<lparr>t_from = ''Rangers'', t_to = ''Devils'', player_name = ''J. Smith'',
     salary_val = 8000000, years = 2,
     retained = \<lparr>retained_amount = 8000000, remaining = 0, pct = Finite 100,
       retention_display = ''100.00%''\<rparr>,
     expire_year = 2027, stats_preview = ''Name: J. Smith'', footer = ''Percent''\<rparr> \<and>
   py_strip '' Name: J. Smith'' = ''Name: J. Smith'' \<and>
   length ''Name: J. Smith'' \<le> 1000"
proof -
  have s: "py_strip '' Name: J. Smith'' = ''Name: J. Smith''"
    by (simp add: py_strip_def py_isspace_def)
  show ?thesis
    using stats_preview_amended [of
      "\<lparr>retention_type = ''percent'', teams = ''Rangers -> Devils'',
        player_stats = CHR '' '' # replicate 1001 (CHR ''a''),
        player_salary = ''$8,000,000'', retention_amount = ''100'', years_retained = ''2''\<rparr>" 2025
      "\<lparr>t_from = ''Rangers'', t_to = ''Devils'',
        player_name = extract_player_name (replicate 1001 (CHR ''a'')),
        salary_val = 8000000, years = 2,
        retained = \<lparr>retained_amount = 8000000, remaining = 0, pct = Finite 100,
          retention_display = ''100.00%''\<rparr>,
        expire_year = 2027, stats_preview = replicate 997 (CHR ''a'') @ ''...'',
        footer = ''Percent''\<rparr>"]
      stats_preview_amended [of
      "\<lparr>retention_type = ''percent'', teams = ''Rangers -> Devils'',
        player_stats = '' Name: J. Smith'', player_salary = ''$8,000,000'',
        retention_amount = ''100'', years_retained = ''2''\<rparr>" 2025
      "\<lparr>t_from = ''Rangers'', t_to = ''Devils'', player_name = ''J. Smith'',
        salary_val = 8000000, years = 2,
        retained = \<lparr>retained_amount = 8000000, remaining = 0, pct = Finite 100,
          retention_display = ''100.00%''\<rparr>,
        expire_year = 2027, stats_preview = ''Name: J. Smith'', footer = ''Percent''\<rparr>"]
      long_modal long_strip spaced_modal s
    by simp
qed

text \<open>
  Claim C9 as stated fails on the stats field as entered: a field of 15 characters that
  begins with a space is not shown unchanged, and a field of 1014 characters that begins
  with 1000 spaces is shown in 14 characters without the three dots.
\<close>

theorem stats_preview_raw_counterexample:
  "on_submit
     \<lparr>retention_type = ''percent'', teams = ''Rangers -> Devils'',
      player_stats = '' Name: J. Smith'', player_salary = ''$8,000,000'',
      retention_amount = ''100'', years_retained = ''2''\<rparr> 2025 =
   Done \<lparr>t_from = ''Rangers'', t_to = ''Devils'', player_name = ''J. Smith'',
     salary_val = 8000000, years = 2,
     retained = \<lparr>retained_amount = 8000000, remaining = 0, pct = Finite 100,
       retention_display = ''100.00%''\<rparr>,
     expire_year = 2027, stats_preview = ''Name: J. Smith'', footer = ''Percent''\<rparr> \<and>
   length '' Name: J. Smith'' \<le> 1000 \<and>
   ''Name: J. Smith'' \<noteq> '' Name: J. Smith'' \<and>
   on_submit
     \<lparr>retention_type = ''percent'', teams = ''Rangers -> Devils'',
      player_stats = replicate 1000 (CHR '' '') @ ''Name: J. Smith'',
      player_salary = ''$8,000,000'', retention_amount = ''100'', years_retained = ''2''\<rparr> 2025 =
   Done \<lparr>t_from = ''Rangers'', t_to = ''Devils'', player_name = ''J. Smith'',
     salary_val = 8000000, years = 2,
     retained = \<lparr>retained_amount = 8000000, remaining = 0, pct = Finite 100,
       retention_display = ''100.00%''\<rparr>,
     expire_year = 2027, stats_preview = ''Name: J. Smith'', footer = ''Percent''\<rparr> \<and>
   1000 < length (replicate 1000 (CHR '' '') @ ''Name: J. Smith'') \<and>
   ''Name: J. Smith'' \<noteq> take 997 (replicate 1000 (CHR '' '') @ ''Name: J. Smith'') @ ''...''"
  using spaced_modal padded_modal by simp


subsection \<open>Teams\<close>

lemma find_map_option:
  "List.find P (map f xs) = map_option f (List.find (\<lambda>x. P (f x)) xs)"
  by (induction xs) simp_all

lemma find_upt_Suc:
  "List.find P [0..<Suc n] = (if P 0 then Some 0 else map_option Suc (List.find (\<lambda>k. P (Suc k)) [0..<n]))"
proof -
  have "[0..<Suc n] = 0 # map Suc [0..<n]"
    by (simp add: upt_conv_Cons map_Suc_upt del: upt_Suc)
  then show ?thesis
    by (simp add: find_map_option del: upt_Suc)
qed

lemma split_once_find:
  "split_once sep s = map_option (\<lambda>k. (take k s, drop (k + length sep) s)) (py_find sep s)"
proof (induction s)
  case Nil
  then show ?case by (auto simp: py_find_def)
next
  case (Cons c cs)
  have "py_find sep (c # cs) =
      (if take (length sep) (c # cs) = sep then Some 0 else map_option Suc (py_find sep cs))"
    unfolding py_find_def length_Cons by (subst find_upt_Suc) simp
  then show ?case
    using Cons.IH by (simp add: option.map_comp comp_def split: option.splits)
qed


lemma nth_upt_0: "i < n \<Longrightarrow> [0..<n] ! i = i"
  by simp

lemma py_find_Some_iff:
  "py_find sep s = Some k \<longleftrightarrow>
     k \<le> length s \<and> take (length sep) (drop k s) = sep \<and>
     (\<forall>j<k. take (length sep) (drop j s) \<noteq> sep)"
proof
  assume "py_find sep s = Some k"
  then obtain i where i: "i < Suc (length s)"
      "take (length sep) (drop ([0..<Suc (length s)] ! i) s) = sep"
      "k = [0..<Suc (length s)] ! i"
      "\<forall>j<i. take (length sep) (drop ([0..<Suc (length s)] ! j) s) \<noteq> sep"
    unfolding py_find_def find_Some_iff by (auto simp del: upt_Suc)
  have ki: "k = i" using i(1,3) by (simp only: nth_upt_0)
  have "take (length sep) (drop j s) \<noteq> sep" if "j < k" for j
  proof -
    from that ki i(1) have "j < i" "j < Suc (length s)" by simp_all
    with i(4) have "take (length sep) (drop ([0..<Suc (length s)] ! j) s) \<noteq> sep" by blast
    moreover have "[0..<Suc (length s)] ! j = j"
      using \<open>j < Suc (length s)\<close> by (rule nth_upt_0)
    ultimately show ?thesis by (simp del: upt_Suc)
  qed
  moreover have "take (length sep) (drop k s) = sep"
    using i(1,2) ki by (simp only: nth_upt_0)
  ultimately show "k \<le> length s \<and> take (length sep) (drop k s) = sep \<and>
     (\<forall>j<k. take (length sep) (drop j s) \<noteq> sep)"
    using i(1) ki by simp
next
  assume a: "k \<le> length s \<and> take (length sep) (drop k s) = sep \<and>
     (\<forall>j<k. take (length sep) (drop j s) \<noteq> sep)"
  then have k: "k < Suc (length s)" by simp
  have "\<exists>i<length [0..<Suc (length s)].
      take (length sep) (drop ([0..<Suc (length s)] ! i) s) = sep \<and>
      k = [0..<Suc (length s)] ! i \<and>
      (\<forall>j<i. \<not> take (length sep) (drop ([0..<Suc (length s)] ! j) s) = sep)"
  proof (intro exI [of _ k] conjI allI impI)
    show "k < length [0..<Suc (length s)]" using k by (simp del: upt_Suc)
    show "take (length sep) (drop ([0..<Suc (length s)] ! k) s) = sep"
      using a k by (simp only: nth_upt_0)
    show "k = [0..<Suc (length s)] ! k" using k by (simp only: nth_upt_0)
    fix j assume "j < k"
    then have "j < Suc (length s)" using k by simp
    then show "\<not> take (length sep) (drop ([0..<Suc (length s)] ! j) s) = sep"
      using a \<open>j < k\<close> by (simp only: nth_upt_0) blast
  qed
  then show "py_find sep s = Some k"
    unfolding py_find_def find_Some_iff .
qed

text \<open>
  Claim C7. The team split looks for \<open>->\<close>, then \<open>/\<close>, then \<open>,\<close>, cuts the trimmed text
  in two at the first occurrence of the first separator present and trims both parts;
  with no separator it returns the trimmed text and \<open>Unknown\<close>. \<open>Rangers -> Devils\<close> and
  \<open>Rangers / Devils\<close> give Rangers and Devils; \<open>Rangers\<close> gives Rangers and Unknown.
\<close>

theorem split_teams_spec:
  "split_teams teamsText = team_split_spec teamsText \<and>
   split_teams ''Rangers -> Devils'' = (''Rangers'', ''Devils'') \<and>
   split_teams ''Rangers / Devils'' = (''Rangers'', ''Devils'') \<and>
   split_teams ''Rangers'' = (''Rangers'', ''Unknown'')"
proof (intro conjI)
  show "split_teams teamsText = team_split_spec teamsText"
    by (auto simp: split_teams_def team_split_spec_def split_once_find Let_def
        split: option.splits)
  show "split_teams ''Rangers -> Devils'' = (''Rangers'', ''Devils'')"
    by (simp add: split_teams_def py_strip_def py_isspace_def)
  show "split_teams ''Rangers / Devils'' = (''Rangers'', ''Devils'')"
    by (simp add: split_teams_def py_strip_def py_isspace_def)
  show "split_teams ''Rangers'' = (''Rangers'', ''Unknown'')"
    by (simp add: split_teams_def py_strip_def py_isspace_def)
qed

subsection \<open>Player name\<close>

lemma stripped_lines_Nil: "stripped_lines [] = []"
  by (simp add: stripped_lines_def py_splitlines_def)

lemma py_find_le: "py_find sep s = Some k \<Longrightarrow> k \<le> length s"
  by (simp add: py_find_Some_iff)

lemma group_at_no_newline:
  assumes "CHR 0x0A \<notin> set x"
  shows "group_at x = (if 2 \<le> length x \<and> length x \<le> 60 then Some x else None)"
proof -
  have "\<not> (x \<noteq> [] \<and> last x = CHR 0x0A)"
    using assms by (metis last_in_set)
  then have "(if x \<noteq> [] \<and> last x = CHR 0x0A then butlast x else x) = x"
    by (simp only: if_False)
  then show ?thesis using assms by (simp add: group_at_def Let_def)
qed

lemma try_group_Some_iff:
  assumes "CHR 0x0A \<notin> set rest"
  shows "try_group j rest = Some g \<longleftrightarrow>
    (\<exists>i. 1 \<le> i \<and> i \<le> j \<and> g = drop i rest \<and> 2 \<le> length g \<and> length g \<le> 60 \<and>
       (\<forall>i'. i < i' \<and> i' \<le> j \<longrightarrow>
          \<not> (2 \<le> length (drop i' rest) \<and> length (drop i' rest) \<le> 60)))"
proof (induction j)
  case 0
  show ?case by simp
next
  case (Suc j)
  have nn: "CHR 0x0A \<notin> set (drop (Suc j) rest)"
    using assms by (auto dest: in_set_dropD)
  let ?ok = "\<lambda>i. 2 \<le> length (drop i rest) \<and> length (drop i rest) \<le> 60"
  show ?case
  proof (cases "?ok (Suc j)")
    case True
    then have t: "try_group (Suc j) rest = Some (drop (Suc j) rest)"
      by (simp add: group_at_no_newline [OF nn])
    show ?thesis
    proof
      assume "try_group (Suc j) rest = Some g"
      with t have g: "g = drop (Suc j) rest" by simp
      show "\<exists>i. 1 \<le> i \<and> i \<le> Suc j \<and> g = drop i rest \<and> 2 \<le> length g \<and> length g \<le> 60 \<and>
          (\<forall>i'. i < i' \<and> i' \<le> Suc j \<longrightarrow> \<not> ?ok i')"
        using True g by (intro exI [of _ "Suc j"]) auto
    next
      assume "\<exists>i. 1 \<le> i \<and> i \<le> Suc j \<and> g = drop i rest \<and> 2 \<le> length g \<and> length g \<le> 60 \<and>
          (\<forall>i'. i < i' \<and> i' \<le> Suc j \<longrightarrow> \<not> ?ok i')"
      then obtain i where i: "i \<le> Suc j" "g = drop i rest"
          "\<forall>i'. i < i' \<and> i' \<le> Suc j \<longrightarrow> \<not> ?ok i'" by blast
      have "i = Suc j"
      proof (rule ccontr)
        assume "i \<noteq> Suc j"
        with i(1) have "i < Suc j" by simp
        with i(3) True show False by blast
      qed
      with i(2) t show "try_group (Suc j) rest = Some g" by simp
    qed
  next
    case False
    then have "group_at (drop (Suc j) rest) = None"
      unfolding group_at_no_newline [OF nn] by (simp only: if_False)
    then have t: "try_group (Suc j) rest = try_group j rest"
      by simp
    show ?thesis
    proof
      assume "try_group (Suc j) rest = Some g"
      with t Suc.IH obtain i where i: "1 \<le> i" "i \<le> j" "g = drop i rest" "2 \<le> length g"
          "length g \<le> 60" "\<forall>i'. i < i' \<and> i' \<le> j \<longrightarrow> \<not> ?ok i'" by auto
      have "\<forall>i'. i < i' \<and> i' \<le> Suc j \<longrightarrow> \<not> ?ok i'"
        using i(6) False by (auto simp: le_Suc_eq)
      with i show "\<exists>i. 1 \<le> i \<and> i \<le> Suc j \<and> g = drop i rest \<and> 2 \<le> length g \<and> length g \<le> 60 \<and>
          (\<forall>i'. i < i' \<and> i' \<le> Suc j \<longrightarrow> \<not> ?ok i')"
        by (intro exI [of _ i]) auto
    next
      assume "\<exists>i. 1 \<le> i \<and> i \<le> Suc j \<and> g = drop i rest \<and> 2 \<le> length g \<and> length g \<le> 60 \<and>
          (\<forall>i'. i < i' \<and> i' \<le> Suc j \<longrightarrow> \<not> ?ok i')"
      then obtain i where i: "1 \<le> i" "i \<le> Suc j" "g = drop i rest" "2 \<le> length g"
          "length g \<le> 60" "\<forall>i'. i < i' \<and> i' \<le> Suc j \<longrightarrow> \<not> ?ok i'" by blast
      have "i \<noteq> Suc j" using i(3,4,5) False by auto
      with i(2) have "i \<le> j" by simp
      moreover have "\<forall>i'. i < i' \<and> i' \<le> j \<longrightarrow> \<not> ?ok i'" using i(6) by auto
      ultimately have "try_group j rest = Some g"
        using i(1,3,4,5) Suc.IH by blast
      with t show "try_group (Suc j) rest = Some g" by simp
    qed
  qed
qed

lemma ci_prefix_Some_iff:
  "ci_prefix kw line = Some rest \<longleftrightarrow>
     (\<exists>k. line = k @ rest \<and> map ascii_lower k = map ascii_lower kw)"
proof
  assume "ci_prefix kw line = Some rest"
  then have "length kw \<le> length line" "map ascii_lower (take (length kw) line) = map ascii_lower kw"
      "rest = drop (length kw) line"
    by (auto simp: ci_prefix_def split: if_splits)
  then show "\<exists>k. line = k @ rest \<and> map ascii_lower k = map ascii_lower kw"
    by (intro exI [of _ "take (length kw) line"]) simp
next
  assume "\<exists>k. line = k @ rest \<and> map ascii_lower k = map ascii_lower kw"
  then obtain k where k: "line = k @ rest" "map ascii_lower k = map ascii_lower kw" by blast
  from k(2) have "length k = length kw" by (rule map_eq_imp_length_eq)
  with k show "ci_prefix kw line = Some rest" by (simp add: ci_prefix_def)
qed

lemma take_takeWhile:
  assumes "i \<le> length (takeWhile P xs)"
  shows "take i xs = take i (takeWhile P xs)"
proof -
  have "take i xs = take i (takeWhile P xs @ dropWhile P xs)" by simp
  also have "\<dots> = take i (takeWhile P xs)" using assms by (simp del: takeWhile_dropWhile_id)
  finally show ?thesis .
qed

lemma after_keyword_Some_iff:
  assumes "CHR 0x0A \<notin> set line"
  shows "after_keyword kw line = Some g \<longleftrightarrow>
    (\<exists>k seps. line = k @ seps @ g \<and> map ascii_lower k = map ascii_lower kw \<and>
       seps \<noteq> [] \<and> list_all is_sep seps \<and> 2 \<le> length g \<and> length g \<le> 60 \<and>
       (is_sep (hd g) \<longrightarrow> length g = 2))"
proof
  assume "after_keyword kw line = Some g"
  then obtain rest where r: "ci_prefix kw line = Some rest"
      and t: "try_group (length (takeWhile is_sep rest)) rest = Some g"
    by (auto simp: after_keyword_def split: option.splits)
  from r obtain k where k: "line = k @ rest" "map ascii_lower k = map ascii_lower kw"
    by (auto simp: ci_prefix_Some_iff)
  from k(1) assms have nn: "CHR 0x0A \<notin> set rest" by simp
  define K where "K = length (takeWhile is_sep rest)"
  from t obtain i where i: "1 \<le> i" "i \<le> K" "g = drop i rest" "2 \<le> length g" "length g \<le> 60"
      "\<forall>i'. i < i' \<and> i' \<le> K \<longrightarrow>
         \<not> (2 \<le> length (drop i' rest) \<and> length (drop i' rest) \<le> 60)"
    unfolding K_def [symmetric] try_group_Some_iff [OF nn] by blast
  define seps where "seps = take i rest"
  have d: "rest = seps @ g" by (simp add: seps_def i(3))
  have "seps = take i (takeWhile is_sep rest)"
    unfolding seps_def using i(2) by (intro take_takeWhile) (simp add: K_def)
  then have "set seps \<subseteq> set (takeWhile is_sep rest)" by (simp add: set_take_subset)
  then have all: "list_all is_sep seps"
    by (auto simp: list_all_iff dest: set_takeWhileD)
  have ilen: "i < length rest" using i(3,4) by (cases "i < length rest") auto
  have ne: "seps \<noteq> []" using i(1) ilen by (auto simp: seps_def)
  have greedy: "length g = 2" if "is_sep (hd g)"
  proof -
    have "i \<noteq> K"
    proof
      assume "i = K"
      then have "g = dropWhile is_sep rest" by (simp add: i(3) K_def dropWhile_eq_drop)
      moreover have "g \<noteq> []" using i(4) by auto
      ultimately have "\<not> is_sep (hd g)" using hd_dropWhile [of is_sep rest] by simp
      with that show False by simp
    qed
    with i(2) have "i < Suc i \<and> Suc i \<le> K" by simp
    with i(6) have x: "\<not> (2 \<le> length (drop (Suc i) rest) \<and> length (drop (Suc i) rest) \<le> 60)"
      by blast
    have len: "length (drop (Suc i) rest) = length g - 1" by (simp add: i(3))
    have "\<not> (2 \<le> length g - 1 \<and> length g - 1 \<le> 60)" using x unfolding len .
    with i(4,5) show ?thesis by arith
  qed
  show "\<exists>k seps. line = k @ seps @ g \<and> map ascii_lower k = map ascii_lower kw \<and>
       seps \<noteq> [] \<and> list_all is_sep seps \<and> 2 \<le> length g \<and> length g \<le> 60 \<and>
       (is_sep (hd g) \<longrightarrow> length g = 2)"
    using k d ne all i(4,5) greedy by (intro exI [of _ k] exI [of _ seps]) simp
next
  assume "\<exists>k seps. line = k @ seps @ g \<and> map ascii_lower k = map ascii_lower kw \<and>
       seps \<noteq> [] \<and> list_all is_sep seps \<and> 2 \<le> length g \<and> length g \<le> 60 \<and>
       (is_sep (hd g) \<longrightarrow> length g = 2)"
  then obtain k seps where k: "line = k @ seps @ g" "map ascii_lower k = map ascii_lower kw"
      and s: "seps \<noteq> []" "list_all is_sep seps"
      and g: "2 \<le> length g" "length g \<le> 60" "is_sep (hd g) \<longrightarrow> length g = 2"
    by blast
  define rest where "rest = seps @ g"
  from k have r: "ci_prefix kw line = Some rest"
    unfolding ci_prefix_Some_iff rest_def by blast
  from k(1) assms have nn: "CHR 0x0A \<notin> set rest" by (simp add: rest_def)
  define K where "K = length (takeWhile is_sep rest)"
  have tw: "takeWhile is_sep rest = seps @ takeWhile is_sep g"
    unfolding rest_def using s(2) by (intro takeWhile_append2) (simp add: list_all_iff)
  have K: "K = length seps + length (takeWhile is_sep g)" by (simp add: K_def tw)
  have maxi: "\<not> (2 \<le> length (drop i' rest) \<and> length (drop i' rest) \<le> 60)"
    if "length seps < i' \<and> i' \<le> K" for i'
  proof -
    from that K have "takeWhile is_sep g \<noteq> []" by auto
    then have "is_sep (hd g)" by (cases g) (auto split: if_splits)
    with g(3) have "length g = 2" by simp
    then have "length (drop i' rest) = length seps + 2 - i'" by (simp add: rest_def)
    with that show ?thesis by arith
  qed
  have "try_group K rest = Some g"
    unfolding try_group_Some_iff [OF nn]
    using s(1) g(1,2) maxi K
    by (intro exI [of _ "length seps"]) (auto simp: rest_def Suc_le_eq)
  with r show "after_keyword kw line = Some g"
    by (simp add: after_keyword_def K_def)
qed

lemma lower_Name: "map ascii_lower ''Name'' = ''name''"
  by (simp add: ascii_lower_def char_of_def bit_0)

lemma lower_Player: "map ascii_lower ''Player'' = ''player''"
  by (simp add: ascii_lower_def char_of_def bit_0)

lemma lower_name_hd: "map ascii_lower k = ''name'' \<Longrightarrow> ascii_lower (hd k) = CHR ''n''"
  by (cases k) simp_all

lemma lower_player_hd: "map ascii_lower k = ''player'' \<Longrightarrow> ascii_lower (hd k) = CHR ''p''"
  by (cases k) simp_all

lemma after_keyword_Name_iff:
  assumes "CHR 0x0A \<notin> set line"
  shows "after_keyword ''Name'' line = Some g \<longleftrightarrow>
    (\<exists>k seps. line = k @ seps @ g \<and> map ascii_lower k = ''name'' \<and>
       seps \<noteq> [] \<and> list_all is_sep seps \<and> 2 \<le> length g \<and> length g \<le> 60 \<and>
       (is_sep (hd g) \<longrightarrow> length g = 2))"
  using after_keyword_Some_iff [OF assms, of "''Name''" g] by (simp only: lower_Name)

lemma after_keyword_Player_iff:
  assumes "CHR 0x0A \<notin> set line"
  shows "after_keyword ''Player'' line = Some g \<longleftrightarrow>
    (\<exists>k seps. line = k @ seps @ g \<and> map ascii_lower k = ''player'' \<and>
       seps \<noteq> [] \<and> list_all is_sep seps \<and> 2 \<le> length g \<and> length g \<le> 60 \<and>
       (is_sep (hd g) \<longrightarrow> length g = 2))"
  using after_keyword_Some_iff [OF assms, of "''Player''" g] by (simp only: lower_Player)

text \<open>
  The pattern as the regular expression reads, on a line without a newline: the keyword
  in any case, a non-empty run of separators, and 2 to 60 characters up to the end of the
  line; the run of separators is the longest one that leaves a match, so the captured
  text starts with a separator only when it has just 2 characters.
\<close>

lemma name_pattern_Some_iff:
  assumes "CHR 0x0A \<notin> set line"
  shows "name_pattern line = Some g \<longleftrightarrow>
    (\<exists>k seps. line = k @ seps @ g \<and> map ascii_lower k \<in> {''name'', ''player''} \<and>
       seps \<noteq> [] \<and> list_all is_sep seps \<and> 2 \<le> length g \<and> length g \<le> 60 \<and>
       (is_sep (hd g) \<longrightarrow> length g = 2))"
proof -
  note aN = after_keyword_Name_iff [OF assms, of g]
  note aP = after_keyword_Player_iff [OF assms, of g]
  show ?thesis
  proof
    assume "name_pattern line = Some g"
    then have "after_keyword ''Name'' line = Some g \<or> after_keyword ''Player'' line = Some g"
      by (auto simp: name_pattern_def split: option.splits)
    then obtain k seps where "line = k @ seps @ g"
        "map ascii_lower k = ''name'' \<or> map ascii_lower k = ''player''"
        "seps \<noteq> []" "list_all is_sep seps" "2 \<le> length g" "length g \<le> 60"
        "is_sep (hd g) \<longrightarrow> length g = 2"
    proof
      assume "after_keyword ''Name'' line = Some g"
      then have "\<exists>k seps. line = k @ seps @ g \<and> map ascii_lower k = ''name'' \<and>
          seps \<noteq> [] \<and> list_all is_sep seps \<and> 2 \<le> length g \<and> length g \<le> 60 \<and>
          (is_sep (hd g) \<longrightarrow> length g = 2)"
        by (rule aN [THEN iffD1])
      then obtain k where "\<exists>seps. line = k @ seps @ g \<and> map ascii_lower k = ''name'' \<and>
          seps \<noteq> [] \<and> list_all is_sep seps \<and> 2 \<le> length g \<and> length g \<le> 60 \<and>
          (is_sep (hd g) \<longrightarrow> length g = 2)" ..
      then obtain seps where "line = k @ seps @ g \<and> map ascii_lower k = ''name'' \<and>
          seps \<noteq> [] \<and> list_all is_sep seps \<and> 2 \<le> length g \<and> length g \<le> 60 \<and>
          (is_sep (hd g) \<longrightarrow> length g = 2)" ..
      then show ?thesis by (intro that [of k seps]) simp_all
    next
      assume "after_keyword ''Player'' line = Some g"
      then have "\<exists>k seps. line = k @ seps @ g \<and> map ascii_lower k = ''player'' \<and>
          seps \<noteq> [] \<and> list_all is_sep seps \<and> 2 \<le> length g \<and> length g \<le> 60 \<and>
          (is_sep (hd g) \<longrightarrow> length g = 2)"
        by (rule aP [THEN iffD1])
      then obtain k where "\<exists>seps. line = k @ seps @ g \<and> map ascii_lower k = ''player'' \<and>
          seps \<noteq> [] \<and> list_all is_sep seps \<and> 2 \<le> length g \<and> length g \<le> 60 \<and>
          (is_sep (hd g) \<longrightarrow> length g = 2)" ..
      then obtain seps where "line = k @ seps @ g \<and> map ascii_lower k = ''player'' \<and>
          seps \<noteq> [] \<and> list_all is_sep seps \<and> 2 \<le> length g \<and> length g \<le> 60 \<and>
          (is_sep (hd g) \<longrightarrow> length g = 2)" ..
      then show ?thesis by (intro that [of k seps]) simp_all
    qed
    then show "\<exists>k seps. line = k @ seps @ g \<and> map ascii_lower k \<in> {''name'', ''player''} \<and>
       seps \<noteq> [] \<and> list_all is_sep seps \<and> 2 \<le> length g \<and> length g \<le> 60 \<and>
       (is_sep (hd g) \<longrightarrow> length g = 2)"
      by (intro exI [of _ k] exI [of _ seps]) (simp only: insert_iff empty_iff simp_thms)
  next
    assume "\<exists>k seps. line = k @ seps @ g \<and> map ascii_lower k \<in> {''name'', ''player''} \<and>
       seps \<noteq> [] \<and> list_all is_sep seps \<and> 2 \<le> length g \<and> length g \<le> 60 \<and>
       (is_sep (hd g) \<longrightarrow> length g = 2)"
    then obtain k where "\<exists>seps. line = k @ seps @ g \<and>
        map ascii_lower k \<in> {''name'', ''player''} \<and>
        seps \<noteq> [] \<and> list_all is_sep seps \<and> 2 \<le> length g \<and> length g \<le> 60 \<and>
        (is_sep (hd g) \<longrightarrow> length g = 2)" ..
    then obtain seps where all: "line = k @ seps @ g \<and>
        map ascii_lower k \<in> {''name'', ''player''} \<and>
        seps \<noteq> [] \<and> list_all is_sep seps \<and> 2 \<le> length g \<and> length g \<le> 60 \<and>
        (is_sep (hd g) \<longrightarrow> length g = 2)" ..
    from all have k: "line = k @ seps @ g" by (rule conjunct1)
    from all have kw: "map ascii_lower k \<in> {''name'', ''player''}"
      by (rule conjunct2 [THEN conjunct1])
    from all have rest: "seps \<noteq> [] \<and> list_all is_sep seps \<and> 2 \<le> length g \<and>
        length g \<le> 60 \<and> (is_sep (hd g) \<longrightarrow> length g = 2)"
      by (rule conjunct2 [THEN conjunct2])
    from kw have "map ascii_lower k = ''name'' \<or> map ascii_lower k = ''player''"
      by (simp only: insert_iff empty_iff simp_thms)
    then show "name_pattern line = Some g"
    proof
      assume nm: "map ascii_lower k = ''name''"
      have "after_keyword ''Name'' line = Some g"
        using k nm rest
        by - (rule aN [THEN iffD2], rule exI [of _ k], rule exI [of _ seps], blast)
      then show ?thesis by (simp add: name_pattern_def)
    next
      assume pl: "map ascii_lower k = ''player''"
      have ap: "after_keyword ''Player'' line = Some g"
        using k pl rest
        by - (rule aP [THEN iffD2], rule exI [of _ k], rule exI [of _ seps], blast)
      have kne: "k \<noteq> []" using pl by auto
      have "ci_prefix ''Name'' line = None"
      proof (rule ccontr)
        assume "ci_prefix ''Name'' line \<noteq> None"
        then obtain rest' where "ci_prefix ''Name'' line = Some rest'" by auto
        then have "\<exists>k'. line = k' @ rest' \<and> map ascii_lower k' = map ascii_lower ''Name''"
          by (rule ci_prefix_Some_iff [THEN iffD1])
        then obtain k' where "line = k' @ rest' \<and> map ascii_lower k' = map ascii_lower ''Name''" ..
        then have k': "line = k' @ rest'" "map ascii_lower k' = ''name''"
          by (simp_all only: lower_Name)
        have "k' \<noteq> []" using k'(2) by auto
        with k'(1) have "hd line = hd k'" by simp
        moreover from kne k have "hd line = hd k" by simp
        ultimately show False
          using lower_name_hd [OF k'(2)] lower_player_hd [OF pl] by simp
      qed
      then have "after_keyword ''Name'' line = None" by (simp add: after_keyword_def)
      with ap show ?thesis by (simp add: name_pattern_def)
    qed
  qed
qed

lemma splitlines_from_no_break:
  "\<forall>c\<in>set cur. \<not> py_islinebreak c \<Longrightarrow> line \<in> set (splitlines_from cur cs) \<Longrightarrow>
   \<forall>c\<in>set line. \<not> py_islinebreak c"
proof (induction cur cs rule: splitlines_from.induct)
  case (1 cur)
  then show ?case by (auto split: if_splits)
next
  case (2 cur c cs)
  show ?case
  proof (cases "c = CHR 0x0D \<and> cs \<noteq> [] \<and> hd cs = CHR 0x0A")
    case True
    with "2.prems" have "line = rev cur \<or> line \<in> set (splitlines_from [] (tl cs))" by simp
    then show ?thesis
    proof
      assume "line = rev cur"
      with "2.prems"(1) show ?thesis by simp
    next
      assume "line \<in> set (splitlines_from [] (tl cs))"
      with "2.IH"(1) [OF True] show ?thesis by simp
    qed
  next
    case False
    note nocr = False
    show ?thesis
    proof (cases "py_islinebreak c")
      case True
      with nocr "2.prems" have "line = rev cur \<or> line \<in> set (splitlines_from [] cs)" by auto
      then show ?thesis
      proof
        assume "line = rev cur"
        with "2.prems"(1) show ?thesis by simp
      next
        assume "line \<in> set (splitlines_from [] cs)"
        with "2.IH"(2) [OF nocr True] show ?thesis by simp
      qed
    next
      case False
      with nocr "2.prems" have "line \<in> set (splitlines_from (c # cur) cs)" by auto
      moreover have "\<forall>x\<in>set (c # cur). \<not> py_islinebreak x" using False "2.prems"(1) by simp
      ultimately show ?thesis using "2.IH"(3) [OF nocr False] by blast
    qed
  qed
qed

lemma set_py_strip: "set (py_strip s) \<subseteq> set s"
proof
  fix c assume "c \<in> set (py_strip s)"
  then have "c \<in> set (dropWhile py_isspace (rev (dropWhile py_isspace s)))"
    by (simp add: py_strip_def)
  then have "c \<in> set (rev (dropWhile py_isspace s))" by (rule set_dropWhileD)
  then have "c \<in> set (dropWhile py_isspace s)" by simp
  then show "c \<in> set s" by (rule set_dropWhileD)
qed

lemma stripped_lines_no_newline:
  assumes "line \<in> set (stripped_lines s)"
  shows "CHR 0x0A \<notin> set line"
proof -
  from assms obtain x where x: "x \<in> set (py_splitlines s)" "line = py_strip x"
    by (auto simp: stripped_lines_def)
  from x(1) have "\<forall>c\<in>set x. \<not> py_islinebreak c"
    unfolding py_splitlines_def by (intro splitlines_from_no_break [of "[]" x s]) simp_all
  moreover have "py_islinebreak (CHR 0x0A)" by (simp add: py_islinebreak_def)
  ultimately have "CHR 0x0A \<notin> set x" by blast
  with x(2) set_py_strip [of x] show ?thesis by blast
qed

lemma py_strip_Nil_iff: "py_strip s = [] \<longleftrightarrow> (\<forall>c\<in>set s. py_isspace c)"
proof -
  have "py_strip s = [] \<longleftrightarrow> (\<forall>c\<in>set (dropWhile py_isspace s). py_isspace c)"
    by (simp add: py_strip_def dropWhile_eq_Nil_conv)
  also have "\<dots> \<longleftrightarrow> dropWhile py_isspace s = []"
  proof
    assume a: "\<forall>c\<in>set (dropWhile py_isspace s). py_isspace c"
    show "dropWhile py_isspace s = []"
    proof (rule ccontr)
      assume ne: "dropWhile py_isspace s \<noteq> []"
      then have "\<not> py_isspace (hd (dropWhile py_isspace s))" by (rule hd_dropWhile)
      moreover have "hd (dropWhile py_isspace s) \<in> set (dropWhile py_isspace s)"
        using ne by simp
      ultimately show False using a by blast
    qed
  next
    assume "dropWhile py_isspace s = []"
    then show "\<forall>c\<in>set (dropWhile py_isspace s). py_isspace c" by (simp only: list.set ball_empty)
  qed
  also have "\<dots> \<longleftrightarrow> (\<forall>c\<in>set s. py_isspace c)"
    by (simp add: dropWhile_eq_Nil_conv)
  finally show ?thesis .
qed

lemma py_strip_nonempty: "c \<in> set s \<Longrightarrow> \<not> py_isspace c \<Longrightarrow> py_strip s \<noteq> []"
  by (auto simp: py_strip_Nil_iff)

lemma py_strip_hd_nonempty: "s \<noteq> [] \<Longrightarrow> \<not> py_isspace (hd s) \<Longrightarrow> py_strip s \<noteq> []"
  by (rule py_strip_nonempty [of "hd s"]) simp_all

lemma py_strip_last_nonempty: "s \<noteq> [] \<Longrightarrow> \<not> py_isspace (last s) \<Longrightarrow> py_strip s \<noteq> []"
  by (rule py_strip_nonempty [of "last s"]) simp_all

lemma last_dropWhile: "dropWhile P xs \<noteq> [] \<Longrightarrow> last (dropWhile P xs) = last xs"
  by (induction xs) (auto split: if_splits)

lemma py_strip_ends:
  assumes "py_strip s \<noteq> []"
  shows "\<not> py_isspace (hd (py_strip s))" and "\<not> py_isspace (last (py_strip s))"
proof -
  define y where "y = dropWhile py_isspace s"
  define z where "z = dropWhile py_isspace (rev y)"
  have z: "z \<noteq> []" using assms by (simp add: py_strip_def y_def z_def)
  then have y: "y \<noteq> []" by (auto simp: z_def)
  have "last (py_strip s) = hd z"
    using z by (simp add: py_strip_def y_def z_def last_rev)
  moreover have "\<not> py_isspace (hd z)"
    using z unfolding z_def by (rule hd_dropWhile)
  ultimately show "\<not> py_isspace (last (py_strip s))" by simp
  have "hd (py_strip s) = last z"
    using z by (simp add: py_strip_def y_def z_def hd_rev)
  also have "\<dots> = last (rev y)" using z unfolding z_def by (rule last_dropWhile)
  also have "\<dots> = hd y" using y by (simp add: last_rev)
  finally have "hd (py_strip s) = hd y" .
  moreover have "\<not> py_isspace (hd y)"
    using y unfolding y_def by (rule hd_dropWhile)
  ultimately show "\<not> py_isspace (hd (py_strip s))" by simp
qed

lemma filter_map_comprehension:
  "filter (\<lambda>x. x \<noteq> []) (map f xs) = [f l. l \<leftarrow> xs, f l \<noteq> []]"
  by (induction xs) simp_all

lemma stripped_lines_comprehension:
  "stripped_lines s = [py_strip l. l \<leftarrow> py_splitlines s, py_strip l \<noteq> []]"
  unfolding stripped_lines_def by (rule filter_map_comprehension)

lemma first_match_None_iff:
  "first_match xs = None \<longleftrightarrow> (\<forall>i<length xs. name_pattern (xs ! i) = None)"
  by (induction xs) (simp_all add: All_less_Suc2 split: option.splits)

lemma first_match_at:
  "i < length xs \<Longrightarrow> name_pattern (xs ! i) = Some g \<Longrightarrow>
   \<forall>j<i. name_pattern (xs ! j) = None \<Longrightarrow> first_match xs = Some g"
proof (induction xs arbitrary: i)
  case Nil
  then show ?case by simp
next
  case (Cons x xs)
  show ?case
  proof (cases i)
    case 0
    with Cons.prems(2) show ?thesis by simp
  next
    case (Suc i')
    with Cons.prems(3) have x: "name_pattern x = None" by auto
    have "first_match xs = Some g"
    proof (rule Cons.IH [of i'])
      show "i' < length xs" using Cons.prems(1) Suc by simp
      show "name_pattern (xs ! i') = Some g" using Cons.prems(2) Suc by simp
      show "\<forall>j<i'. name_pattern (xs ! j) = None"
      proof (intro allI impI)
        fix j assume "j < i'"
        then have "Suc j < i" using Suc by simp
        with Cons.prems(3) have "name_pattern ((x # xs) ! Suc j) = None" by blast
        then show "name_pattern (xs ! j) = None" by simp
      qed
    qed
    with x show ?thesis by simp
  qed
qed

lemma extract_player_name_amended_eq:
  "extract_player_name s = extract_player_name_amended s"
  by (auto simp: extract_player_name_def extract_player_name_amended_def stripped_lines_Nil
      py_contains_def split_first_def split_once_find min_def
      split: list.splits option.splits dest: py_find_le)

lemma extract_player_name_no_lines:
  "stripped_lines s = [] \<Longrightarrow> extract_player_name s = ''Unknown Player''"
  by (simp add: extract_player_name_def)

lemma extract_player_name_match:
  assumes "i < length (stripped_lines s)" "i < 8"
    "name_pattern (stripped_lines s ! i) = Some g"
    "\<forall>j<i. name_pattern (stripped_lines s ! j) = None"
  shows "extract_player_name s = py_strip g"
proof -
  from assms(1) obtain first others where c: "stripped_lines s = first # others"
    by (cases "stripped_lines s") simp_all
  have "first_match (take 8 (stripped_lines s)) = Some g"
  proof (rule first_match_at [of i])
    show "i < length (take 8 (stripped_lines s))" using assms(1,2) by simp
    show "name_pattern (take 8 (stripped_lines s) ! i) = Some g" using assms(2,3) by simp
    show "\<forall>j<i. name_pattern (take 8 (stripped_lines s) ! j) = None"
      using assms(2,4) by simp
  qed
  then have "first_match (take 8 (first # others)) = Some g" by (simp only: c)
  then show ?thesis
    by (simp only: extract_player_name_amended_eq extract_player_name_amended_def c
        list.case option.case)
qed

lemma extract_player_name_fallback:
  assumes "stripped_lines s \<noteq> []"
    "\<forall>j. j < length (stripped_lines s) \<and> j < 8 \<longrightarrow> name_pattern (stripped_lines s ! j) = None"
  shows "extract_player_name s =
     (case py_find '' - '' (hd (stripped_lines s)) of
        Some k \<Rightarrow> py_strip (take k (hd (stripped_lines s)))
      | None \<Rightarrow>
          (case py_find '','' (hd (stripped_lines s)) of
             Some k \<Rightarrow>
               if k < 40 then py_strip (take k (hd (stripped_lines s)))
               else py_strip (take 60 (hd (stripped_lines s)))
           | None \<Rightarrow> py_strip (take 60 (hd (stripped_lines s)))))"
proof -
  from assms(1) obtain first others where c: "stripped_lines s = first # others"
    by (cases "stripped_lines s") simp_all
  have "first_match (take 8 (stripped_lines s)) = None"
    unfolding first_match_None_iff using assms(2) by simp
  then have "first_match (take 8 (first # others)) = None" by (simp only: c)
  then show ?thesis
    by (simp only: extract_player_name_amended_eq extract_player_name_amended_def c
        list.case option.case list.sel)
qed

lemma py_strip_decomp:
  "\<exists>a b. t = a @ py_strip t @ b \<and> list_all py_isspace a \<and> list_all py_isspace b"
proof -
  define y where "y = dropWhile py_isspace t"
  define z where "z = dropWhile py_isspace (rev y)"
  have t: "t = takeWhile py_isspace t @ y" by (simp add: y_def)
  have "rev y = takeWhile py_isspace (rev y) @ z" by (simp add: z_def)
  then have "rev (rev y) = rev (takeWhile py_isspace (rev y) @ z)" by (rule arg_cong)
  then have y: "y = rev z @ rev (takeWhile py_isspace (rev y))" by simp
  have s: "py_strip t = rev z" by (simp add: py_strip_def y_def z_def)
  have "t = takeWhile py_isspace t @ py_strip t @ rev (takeWhile py_isspace (rev y))"
    using t y s by simp
  moreover have "list_all py_isspace (takeWhile py_isspace t)"
    by (simp add: list_all_iff) (meson set_takeWhileD)
  moreover have "list_all py_isspace (rev (takeWhile py_isspace (rev y)))"
    by (simp add: list_all_iff) (meson set_takeWhileD)
  ultimately show ?thesis by blast
qed

text \<open>
  Claim C8, amended. Player-name extraction always returns a name. The lines are the
  non-empty trimmed lines of the text, in order, where trimming removes a run of
  whitespace at each end and leaves a text that neither begins nor ends with whitespace.
  With no such line the name is \<open>Unknown Player\<close>; otherwise it is the trimmed capture
  of the first of the first 8 lines that match the pattern: \<open>Name\<close> or \<open>Player\<close> in any
  case, then one or more of colon, whitespace and hyphen, then 2 to 60 characters to the
  end of the line. When none of the first 8 lines matches, it is taken from the first
  line: the trimmed text before the first \<open> - \<close>, else the trimmed prefix before the
  first comma when that prefix (untrimmed) has fewer than 40 characters, else the first 60
  characters, trimmed; the first occurrence is at the least position where the separator
  begins. The three examples give \<open>Jane Doe\<close>, \<open>Jane Doe\<close> and \<open>Unknown Player\<close>.
\<close>

theorem extract_player_name_spec:
  "extract_player_name s = extract_player_name_amended s \<and>
   (\<forall>line\<in>set (stripped_lines s). \<forall>g.
      name_pattern line = Some g \<longleftrightarrow>
        (\<exists>k seps. line = k @ seps @ g \<and> map ascii_lower k \<in> {''name'', ''player''} \<and>
           seps \<noteq> [] \<and> list_all is_sep seps \<and> 2 \<le> length g \<and> length g \<le> 60 \<and>
           (is_sep (hd g) \<longrightarrow> length g = 2))) \<and>
   extract_player_name (''Name: Jane Doe'' @ [CHR 0x0A] @ ''GP: 10'') = ''Jane Doe'' \<and>
   extract_player_name ''Jane Doe - Forward'' = ''Jane Doe'' \<and>
   extract_player_name [] = ''Unknown Player'' \<and>
   stripped_lines s = [py_strip l. l \<leftarrow> py_splitlines s, py_strip l \<noteq> []] \<and>
   (ls = [py_strip l. l \<leftarrow> py_splitlines s, py_strip l \<noteq> []] \<longrightarrow>
      (ls = [] \<longrightarrow> extract_player_name s = ''Unknown Player'') \<and>
      (i < length ls \<and> i < 8 \<and> name_pattern (ls ! i) = Some m \<and>
       (\<forall>j<i. name_pattern (ls ! j) = None) \<longrightarrow>
         extract_player_name s = py_strip m) \<and>
      (ls \<noteq> [] \<and> (\<forall>j. j < length ls \<and> j < 8 \<longrightarrow> name_pattern (ls ! j) = None) \<longrightarrow>
         extract_player_name s =
           (case py_find '' - '' (hd ls) of
              Some k \<Rightarrow> py_strip (take k (hd ls))
            | None \<Rightarrow>
                (case py_find '','' (hd ls) of
                   Some k \<Rightarrow>
                     if k < 40 then py_strip (take k (hd ls)) else py_strip (take 60 (hd ls))
                 | None \<Rightarrow> py_strip (take 60 (hd ls))))) \<and>
      (\<forall>line\<in>set ls. \<forall>g.
         name_pattern line = Some g \<longleftrightarrow>
           (\<exists>k seps. line = k @ seps @ g \<and> map ascii_lower k \<in> {''name'', ''player''} \<and>
              seps \<noteq> [] \<and> list_all is_sep seps \<and> 2 \<le> length g \<and> length g \<le> 60 \<and>
              (is_sep (hd g) \<longrightarrow> length g = 2)))) \<and>
   (py_find sep x = Some n \<longleftrightarrow>
      n \<le> length x \<and> take (length sep) (drop n x) = sep \<and>
      (\<forall>j<n. take (length sep) (drop j x) \<noteq> sep)) \<and>
   (\<exists>a b. t = a @ py_strip t @ b \<and> list_all py_isspace a \<and> list_all py_isspace b) \<and>
   (py_strip t \<noteq> [] \<longrightarrow>
      \<not> py_isspace (hd (py_strip t)) \<and> \<not> py_isspace (last (py_strip t)))"
proof -
  have pat: "name_pattern line = Some g \<longleftrightarrow>
        (\<exists>k seps. line = k @ seps @ g \<and> map ascii_lower k \<in> {''name'', ''player''} \<and>
           seps \<noteq> [] \<and> list_all is_sep seps \<and> 2 \<le> length g \<and> length g \<le> 60 \<and>
           (is_sep (hd g) \<longrightarrow> length g = 2))"
    if "line \<in> set (stripped_lines s)" for line g
  proof -
    from that have "CHR 0x0A \<notin> set line" by (rule stripped_lines_no_newline)
    then show ?thesis by (rule name_pattern_Some_iff)
  qed
  have a: "extract_player_name s = extract_player_name_amended s"
    by (rule extract_player_name_amended_eq)
  have b: "\<forall>line\<in>set (stripped_lines s). \<forall>g.
      name_pattern line = Some g \<longleftrightarrow>
        (\<exists>k seps. line = k @ seps @ g \<and> map ascii_lower k \<in> {''name'', ''player''} \<and>
           seps \<noteq> [] \<and> list_all is_sep seps \<and> 2 \<le> length g \<and> length g \<le> 60 \<and>
           (is_sep (hd g) \<longrightarrow> length g = 2))"
    by (intro ballI allI) (rule pat)
  have c: "extract_player_name (''Name: Jane Doe'' @ [CHR 0x0A] @ ''GP: 10'') = ''Jane Doe''"
    "extract_player_name ''Jane Doe - Forward'' = ''Jane Doe''"
    by (simp_all add: name_defs eval_defs)
  have d: "extract_player_name [] = ''Unknown Player''"
    by (simp add: extract_player_name_def)
  have e: "stripped_lines s = [py_strip l. l \<leftarrow> py_splitlines s, py_strip l \<noteq> []]"
    by (rule stripped_lines_comprehension)
  have f: "ls = [py_strip l. l \<leftarrow> py_splitlines s, py_strip l \<noteq> []] \<longrightarrow>
      (ls = [] \<longrightarrow> extract_player_name s = ''Unknown Player'') \<and>
      (i < length ls \<and> i < 8 \<and> name_pattern (ls ! i) = Some m \<and>
       (\<forall>j<i. name_pattern (ls ! j) = None) \<longrightarrow>
         extract_player_name s = py_strip m) \<and>
      (ls \<noteq> [] \<and> (\<forall>j. j < length ls \<and> j < 8 \<longrightarrow> name_pattern (ls ! j) = None) \<longrightarrow>
         extract_player_name s =
           (case py_find '' - '' (hd ls) of
              Some k \<Rightarrow> py_strip (take k (hd ls))
            | None \<Rightarrow>
                (case py_find '','' (hd ls) of
                   Some k \<Rightarrow>
                     if k < 40 then py_strip (take k (hd ls)) else py_strip (take 60 (hd ls))
                 | None \<Rightarrow> py_strip (take 60 (hd ls))))) \<and>
      (\<forall>line\<in>set ls. \<forall>g.
         name_pattern line = Some g \<longleftrightarrow>
           (\<exists>k seps. line = k @ seps @ g \<and> map ascii_lower k \<in> {''name'', ''player''} \<and>
              seps \<noteq> [] \<and> list_all is_sep seps \<and> 2 \<le> length g \<and> length g \<le> 60 \<and>
              (is_sep (hd g) \<longrightarrow> length g = 2)))"
  proof
    assume "ls = [py_strip l. l \<leftarrow> py_splitlines s, py_strip l \<noteq> []]"
    then have ls: "ls = stripped_lines s" by (simp only: e)
    show "(ls = [] \<longrightarrow> extract_player_name s = ''Unknown Player'') \<and>
      (i < length ls \<and> i < 8 \<and> name_pattern (ls ! i) = Some m \<and>
       (\<forall>j<i. name_pattern (ls ! j) = None) \<longrightarrow>
         extract_player_name s = py_strip m) \<and>
      (ls \<noteq> [] \<and> (\<forall>j. j < length ls \<and> j < 8 \<longrightarrow> name_pattern (ls ! j) = None) \<longrightarrow>
         extract_player_name s =
           (case py_find '' - '' (hd ls) of
              Some k \<Rightarrow> py_strip (take k (hd ls))
            | None \<Rightarrow>
                (case py_find '','' (hd ls) of
                   Some k \<Rightarrow>
                     if k < 40 then py_strip (take k (hd ls)) else py_strip (take 60 (hd ls))
                 | None \<Rightarrow> py_strip (take 60 (hd ls))))) \<and>
      (\<forall>line\<in>set ls. \<forall>g.
         name_pattern line = Some g \<longleftrightarrow>
           (\<exists>k seps. line = k @ seps @ g \<and> map ascii_lower k \<in> {''name'', ''player''} \<and>
              seps \<noteq> [] \<and> list_all is_sep seps \<and> 2 \<le> length g \<and> length g \<le> 60 \<and>
              (is_sep (hd g) \<longrightarrow> length g = 2)))"
      unfolding ls
    proof (intro conjI impI)
      assume "stripped_lines s = []"
      then show "extract_player_name s = ''Unknown Player''"
        by (rule extract_player_name_no_lines)
    next
      assume "i < length (stripped_lines s) \<and> i < 8 \<and>
        name_pattern (stripped_lines s ! i) = Some m \<and>
        (\<forall>j<i. name_pattern (stripped_lines s ! j) = None)"
      then show "extract_player_name s = py_strip m"
        using extract_player_name_match [of i s m] by blast
    next
      assume "stripped_lines s \<noteq> [] \<and>
        (\<forall>j. j < length (stripped_lines s) \<and> j < 8 \<longrightarrow>
           name_pattern (stripped_lines s ! j) = None)"
      then show "extract_player_name s =
           (case py_find '' - '' (hd (stripped_lines s)) of
              Some k \<Rightarrow> py_strip (take k (hd (stripped_lines s)))
            | None \<Rightarrow>
                (case py_find '','' (hd (stripped_lines s)) of
                   Some k \<Rightarrow>
                     if k < 40 then py_strip (take k (hd (stripped_lines s)))
                     else py_strip (take 60 (hd (stripped_lines s)))
                 | None \<Rightarrow> py_strip (take 60 (hd (stripped_lines s)))))"
        using extract_player_name_fallback [of s] by blast
    next
      show "\<forall>line\<in>set (stripped_lines s). \<forall>g.
         name_pattern line = Some g \<longleftrightarrow>
           (\<exists>k seps. line = k @ seps @ g \<and> map ascii_lower k \<in> {''name'', ''player''} \<and>
              seps \<noteq> [] \<and> list_all is_sep seps \<and> 2 \<le> length g \<and> length g \<le> 60 \<and>
              (is_sep (hd g) \<longrightarrow> length g = 2))"
        by (rule b)
    qed
  qed
  have g: "py_find sep x = Some n \<longleftrightarrow>
      n \<le> length x \<and> take (length sep) (drop n x) = sep \<and>
      (\<forall>j<n. take (length sep) (drop j x) \<noteq> sep)"
    by (rule py_find_Some_iff)
  have h: "\<exists>a b. t = a @ py_strip t @ b \<and> list_all py_isspace a \<and> list_all py_isspace b"
    by (rule py_strip_decomp)
  have k: "py_strip t \<noteq> [] \<longrightarrow>
      \<not> py_isspace (hd (py_strip t)) \<and> \<not> py_isspace (last (py_strip t))"
    using py_strip_ends [of t] by blast
  show ?thesis
    by (intro conjI) (rule a b c d e f g h k)+
qed

theorem extract_player_name_spec_witness:
  "[py_strip l. l \<leftarrow> py_splitlines (''GP: 10'' @ [CHR 0x0A] @ ''Player - Al B''), py_strip l \<noteq> []] =
     [''GP: 10'', ''Player - Al B''] \<and>
   (1::nat) < length [''GP: 10'', ''Player - Al B''] \<and> (1::nat) < 8 \<and>
   name_pattern ([''GP: 10'', ''Player - Al B''] ! 1) = Some ''Al B'' \<and>
   name_pattern ([''GP: 10'', ''Player - Al B''] ! 0) = None \<and>
   extract_player_name (''GP: 10'' @ [CHR 0x0A] @ ''Player - Al B'') = ''Al B'' \<and>
   [py_strip l. l \<leftarrow> py_splitlines ''Jane Doe - Forward'', py_strip l \<noteq> []] =
     [''Jane Doe - Forward''] \<and>
   length [''Jane Doe - Forward''] = 1 \<and>
   name_pattern ([''Jane Doe - Forward''] ! 0) = None \<and>
   py_find '' - '' ''Jane Doe - Forward'' = Some 8 \<and>
   extract_player_name ''Jane Doe - Forward'' = ''Jane Doe'' \<and>
   [py_strip l. l \<leftarrow> py_splitlines [CHR '' '', CHR 0x0A, CHR '' ''], py_strip l \<noteq> []] = [] \<and>
   extract_player_name [CHR '' '', CHR 0x0A, CHR '' ''] = ''Unknown Player'' \<and>
   ''Player - Al B'' \<in> set [''GP: 10'', ''Player - Al B''] \<and>
   (\<exists>k seps. ''Player - Al B'' = k @ seps @ ''Al B'' \<and>
      map ascii_lower k \<in> {''name'', ''player''} \<and>
      seps \<noteq> [] \<and> list_all is_sep seps \<and> 2 \<le> length ''Al B'' \<and>
      length ''Al B'' \<le> 60 \<and> (is_sep (hd ''Al B'') \<longrightarrow> length ''Al B'' = 2)) \<and>
   py_strip '' Jane '' = ''Jane'' \<and> \<not> py_isspace (hd ''Jane'') \<and> \<not> py_isspace (last ''Jane'')"
proof -
  let ?s1 = "''GP: 10'' @ [CHR 0x0A] @ ''Player - Al B''"
  let ?l1 = "[''GP: 10'', ''Player - Al B'']"
  let ?s2 = "''Jane Doe - Forward''"
  let ?s3 = "[CHR '' '', CHR 0x0A, CHR '' '']"
  have e1: "?l1 = [py_strip l. l \<leftarrow> py_splitlines ?s1, py_strip l \<noteq> []]"
    by (simp add: name_defs eval_defs)
  have e2: "[?s2] = [py_strip l. l \<leftarrow> py_splitlines ?s2, py_strip l \<noteq> []]"
    by (simp add: name_defs eval_defs)
  have e3: "[] = [py_strip l. l \<leftarrow> py_splitlines ?s3, py_strip l \<noteq> []]"
    by (simp add: name_defs eval_defs)
  have p1: "name_pattern (?l1 ! 1) = Some ''Al B''"
    by (simp add: name_defs eval_defs)
  have n1: "\<forall>j<1. name_pattern (?l1 ! j) = None"
    by (simp add: name_defs eval_defs)
  have n2: "\<forall>j. j < length [?s2] \<and> j < 8 \<longrightarrow> name_pattern ([?s2] ! j) = None"
    by (simp add: name_defs eval_defs)
  have f2: "py_find '' - '' ?s2 = Some 8"
    by (simp add: py_find_def)
  have st: "py_strip '' Jane '' = ''Jane''"
    by (simp add: eval_defs)
  note T1 = extract_player_name_spec [where s = ?s1 and ls = ?l1 and i = 1 and m = "''Al B''"
      and t = "'' Jane ''"]
  note T2 = extract_player_name_spec [where s = ?s2 and ls = "[?s2]"]
  note T3 = extract_player_name_spec [where s = ?s3 and ls = "[]"]
  note G1 = T1 [THEN conjunct2, THEN conjunct2, THEN conjunct2, THEN conjunct2, THEN conjunct2,
      THEN conjunct2, THEN conjunct1, THEN mp, OF e1]
  note G2 = T2 [THEN conjunct2, THEN conjunct2, THEN conjunct2, THEN conjunct2, THEN conjunct2,
      THEN conjunct2, THEN conjunct1, THEN mp, OF e2]
  note G3 = T3 [THEN conjunct2, THEN conjunct2, THEN conjunct2, THEN conjunct2, THEN conjunct2,
      THEN conjunct2, THEN conjunct1, THEN mp, OF e3]
  have r1: "extract_player_name ?s1 = ''Al B''"
  proof -
    have "extract_player_name ?s1 = py_strip ''Al B''"
      using p1 n1 by (intro G1 [THEN conjunct2, THEN conjunct1, THEN mp]) simp
    then show ?thesis by (simp add: eval_defs)
  qed
  have r2: "extract_player_name ?s2 = ''Jane Doe''"
  proof -
    have "extract_player_name ?s2 =
           (case py_find '' - '' (hd [?s2]) of
              Some k \<Rightarrow> py_strip (take k (hd [?s2]))
            | None \<Rightarrow>
                (case py_find '','' (hd [?s2]) of
                   Some k \<Rightarrow>
                     if k < 40 then py_strip (take k (hd [?s2])) else py_strip (take 60 (hd [?s2]))
                 | None \<Rightarrow> py_strip (take 60 (hd [?s2]))))"
      using n2 by (intro G2 [THEN conjunct2, THEN conjunct2, THEN conjunct1, THEN mp]) simp
    then show ?thesis using f2 by (simp add: eval_defs)
  qed
  have r3: "extract_player_name ?s3 = ''Unknown Player''"
    by (rule G3 [THEN conjunct1, THEN mp]) simp
  have m1: "''Player - Al B'' \<in> set ?l1" by simp
  have p1': "name_pattern ''Player - Al B'' = Some ''Al B''" using p1 by simp
  have "\<forall>g. name_pattern ''Player - Al B'' = Some g \<longleftrightarrow>
        (\<exists>k seps. ''Player - Al B'' = k @ seps @ g \<and>
           map ascii_lower k \<in> {''name'', ''player''} \<and>
           seps \<noteq> [] \<and> list_all is_sep seps \<and> 2 \<le> length g \<and> length g \<le> 60 \<and>
           (is_sep (hd g) \<longrightarrow> length g = 2))"
    using G1 [THEN conjunct2, THEN conjunct2, THEN conjunct2] m1 by (rule bspec)
  then have "name_pattern ''Player - Al B'' = Some ''Al B'' \<longleftrightarrow>
        (\<exists>k seps. ''Player - Al B'' = k @ seps @ ''Al B'' \<and>
           map ascii_lower k \<in> {''name'', ''player''} \<and>
           seps \<noteq> [] \<and> list_all is_sep seps \<and> 2 \<le> length ''Al B'' \<and>
           length ''Al B'' \<le> 60 \<and> (is_sep (hd ''Al B'') \<longrightarrow> length ''Al B'' = 2))"
    by (rule spec)
  then have x1: "\<exists>k seps. ''Player - Al B'' = k @ seps @ ''Al B'' \<and>
           map ascii_lower k \<in> {''name'', ''player''} \<and>
           seps \<noteq> [] \<and> list_all is_sep seps \<and> 2 \<le> length ''Al B'' \<and>
           length ''Al B'' \<le> 60 \<and> (is_sep (hd ''Al B'') \<longrightarrow> length ''Al B'' = 2)"
    using p1' by (rule iffD1)
  have "py_strip '' Jane '' \<noteq> [] \<longrightarrow>
      \<not> py_isspace (hd (py_strip '' Jane '')) \<and> \<not> py_isspace (last (py_strip '' Jane ''))"
    by (rule T1 [THEN conjunct2, THEN conjunct2, THEN conjunct2, THEN conjunct2, THEN conjunct2,
      THEN conjunct2, THEN conjunct2, THEN conjunct2, THEN conjunct2])
  then have h: "\<not> py_isspace (hd ''Jane'')" "\<not> py_isspace (last ''Jane'')"
    unfolding st by simp_all
  have l1: "(1::nat) < length ?l1" "(1::nat) < 8" "length [?s2] = 1" by simp_all
  have z1: "name_pattern (?l1 ! 0) = None" using n1 by simp
  have z2: "name_pattern ([?s2] ! 0) = None" using n2 by simp
  show ?thesis
    by (intro conjI) (rule e1 [symmetric] e2 [symmetric] e3 [symmetric] l1 p1 z1 z2 f2 r1 r2 r3
        m1 x1 st h)+
qed

text \<open>
  Claim C8 as stated fails: with two spaces before the hyphen the text before the first
  \<open> - \<close> ends with a space, which \<open>extract_player_name\<close> removes.
\<close>

theorem extract_player_name_untrimmed_counterexample:
  "extract_player_name ''Jane  - Forward'' = ''Jane'' \<and>
   extract_player_name_claimed ''Jane  - Forward'' = ''Jane '' \<and>
   extract_player_name ''Jane  - Forward'' \<noteq> extract_player_name_claimed ''Jane  - Forward'' \<and>
   [py_strip l. l \<leftarrow> py_splitlines ''Jane  - Forward'', py_strip l \<noteq> []] =
     [''Jane  - Forward''] \<and>
   name_pattern ''Jane  - Forward'' = None \<and>
   py_find '' - '' ''Jane  - Forward'' = Some 5 \<and>
   take 5 ''Jane  - Forward'' = ''Jane '' \<and>
   extract_player_name ''Jane  - Forward'' \<noteq> take 5 ''Jane  - Forward''"
  by (simp add: extract_player_name_claimed_def py_find_def name_defs eval_defs)


subsection \<open>Name and salary of an accepted form\<close>

lemma stripped_lines_ends:
  assumes "line \<in> set (stripped_lines s)"
  shows "line \<noteq> []" and "\<not> py_isspace (hd line)" and "\<not> py_isspace (last line)"
proof -
  from assms obtain x where "line = py_strip x" and ne: "line \<noteq> []"
    by (auto simp: stripped_lines_def)
  then show "line \<noteq> []" "\<not> py_isspace (hd line)" "\<not> py_isspace (last line)"
    using py_strip_ends [of x] by simp_all
qed

lemma group_at_SomeD:
  assumes "group_at x = Some g"
  shows "2 \<le> length g" and "g = x \<or> x = g @ [CHR 0x0A]"
proof -
  from assms show "2 \<le> length g"
    by (auto simp: group_at_def Let_def split: if_splits)
  from assms show "g = x \<or> x = g @ [CHR 0x0A]"
    by (auto simp: group_at_def Let_def split: if_splits) (metis append_butlast_last_id)
qed

lemma try_group_SomeD: "try_group j rest = Some g \<Longrightarrow> \<exists>i. group_at (drop i rest) = Some g"
  by (induction j) (auto split: option.splits)

lemma name_pattern_SomeD:
  assumes "name_pattern line = Some g"
  shows "\<exists>i. group_at (drop i line) = Some g"
proof -
  from assms obtain kw where "after_keyword kw line = Some g"
    by (auto simp: name_pattern_def split: option.splits)
  then obtain rest where r: "ci_prefix kw line = Some rest"
      and t: "try_group (length (takeWhile is_sep rest)) rest = Some g"
    by (auto simp: after_keyword_def split: option.splits)
  from r have "rest = drop (length kw) line"
    by (auto simp: ci_prefix_def split: if_splits)
  with try_group_SomeD [OF t] show ?thesis by auto
qed

lemma name_pattern_group_nonspace:
  assumes "name_pattern line = Some g" "line \<noteq> []" "\<not> py_isspace (last line)"
  shows "py_strip g \<noteq> []"
proof -
  from name_pattern_SomeD [OF assms(1)] obtain i where i: "group_at (drop i line) = Some g"
    by blast
  note g = group_at_SomeD [OF i]
  have nl: "py_isspace (CHR 0x0A)" by (simp add: py_isspace_def)
  have gne: "g \<noteq> []" using g(1) by auto
  from g(2) have "last g = last line"
  proof
    assume "g = drop i line"
    with gne show ?thesis by (simp add: last_drop)
  next
    assume x: "drop i line = g @ [CHR 0x0A]"
    then have "i < length line" by (cases "i < length line") auto
    then have "last (drop i line) = last line" by (simp add: last_drop)
    with x have "last line = CHR 0x0A" by simp
    with assms(3) nl show ?thesis by simp
  qed
  with assms(3) gne show ?thesis by (intro py_strip_last_nonempty) simp_all
qed

lemma first_match_SomeD: "first_match ls = Some g \<Longrightarrow> \<exists>l\<in>set ls. name_pattern l = Some g"
  by (induction ls) (auto split: option.splits)

lemma split_once_SomeD: "split_once sep s = Some (a, b) \<Longrightarrow> s = a @ sep @ b"
proof (induction s arbitrary: a)
  case Nil
  then show ?case by (auto split: if_splits)
next
  case (Cons c cs)
  show ?case
  proof (cases "take (length sep) (c # cs) = sep")
    case True
    with Cons.prems have "a = []" "b = drop (length sep) (c # cs)" by simp_all
    with True show ?thesis by (metis append_Nil append_take_drop_id)
  next
    case False
    with Cons.prems obtain a' where "split_once sep cs = Some (a', b)" "a = c # a'"
      by (auto split: option.splits)
    with Cons.IH show ?thesis by simp
  qed
qed

lemma rnd_neg_numeral:
  "numeral k < (2::int) ^ 53 \<Longrightarrow> rnd (- numeral k) = Finite (- numeral k)"
  using rnd_of_int [of "- numeral k"] by simp

lemma extract_player_name_empty:
  assumes "extract_player_name s = []"
  shows "\<exists>first others. stripped_lines s = first # others \<and> hd first = CHR '',''"
proof -
  from assms have "s \<noteq> []" by (auto simp: extract_player_name_def)
  with assms obtain first others where l: "stripped_lines s = first # others"
    by (cases "stripped_lines s") (auto simp: extract_player_name_def)
  have mem: "first \<in> set (stripped_lines s)" by (simp add: l)
  note f = stripped_lines_ends [OF mem]
  have sp: "py_isspace (CHR '' '')" by (simp add: py_isspace_def)
  have nomatch: "first_match (take 8 (first # others)) = None"
  proof (rule ccontr)
    assume "first_match (take 8 (first # others)) \<noteq> None"
    then obtain g where g: "first_match (take 8 (first # others)) = Some g" by auto
    then obtain line where "line \<in> set (take 8 (first # others))" "name_pattern line = Some g"
      using first_match_SomeD by blast
    then have "line \<in> set (stripped_lines s)" "name_pattern line = Some g"
      using l by (auto dest: in_set_takeD)
    then have "py_strip g \<noteq> []"
      using stripped_lines_ends [of line s] by (intro name_pattern_group_nonspace [of line]) simp_all
    with assms \<open>s \<noteq> []\<close> l g show False by (simp add: extract_player_name_def)
  qed
  have prefix: "py_strip a \<noteq> []" if "first = a @ t" "a \<noteq> []" for a t
  proof -
    from that have "hd a = hd first" by simp
    with f(2) that(2) show ?thesis by (intro py_strip_hd_nonempty) simp_all
  qed
  show ?thesis
  proof (cases "split_once '' - '' first")
    case (Some ab)
    obtain a b where ab: "ab = (a, b)" by (cases ab)
    with Some have d: "first = a @ '' - '' @ b" by (auto dest: split_once_SomeD)
    have "a \<noteq> []"
    proof
      assume "a = []"
      with d have "hd first = CHR '' ''" by simp
      with f(2) sp show False by simp
    qed
    with d have "py_strip a \<noteq> []" by (intro prefix)
    with assms \<open>s \<noteq> []\<close> l nomatch Some ab show ?thesis
      by (simp add: extract_player_name_def py_contains_def split_first_def)
  next
    case None
    note nodash = None
    show ?thesis
    proof (cases "split_once '','' first")
      case (Some ab)
      obtain a b where ab: "ab = (a, b)" by (cases ab)
      with Some have d: "first = a @ '','' @ b" by (auto dest: split_once_SomeD)
      show ?thesis
      proof (cases "a = []")
        case True
        with d have "hd first = CHR '',''" by simp
        with l show ?thesis by blast
      next
        case False
        with d have a: "py_strip a \<noteq> []" by (intro prefix)
        have "py_strip (take 60 first) \<noteq> []"
          using f(1) by (intro prefix [of _ "drop 60 first"]) simp_all
        with a assms \<open>s \<noteq> []\<close> l nomatch nodash Some ab show ?thesis
          by (simp add: extract_player_name_def py_contains_def split_first_def split: if_splits)
      qed
    next
      case None
      have "py_strip (take 60 first) \<noteq> []"
        using f(1) by (intro prefix [of _ "drop 60 first"]) simp_all
      with assms \<open>s \<noteq> []\<close> l nomatch nodash None show ?thesis
        by (simp add: extract_player_name_def py_contains_def split_first_def)
    qed
  qed
qed

lemma digits_val_nonneg_aux:
  "list_all py_isdigit ds \<Longrightarrow> 0 \<le> acc \<Longrightarrow> 0 \<le> foldl (\<lambda>n c. 10 * n + digit_val c) acc ds"
proof (induction ds arbitrary: acc)
  case Nil
  then show ?case by simp
next
  case (Cons c cs)
  from Cons.prems have "0 \<le> digit_val c" by (simp add: py_isdigit_def digit_val_def)
  with Cons.prems have "0 \<le> 10 * acc + digit_val c" by simp
  with Cons show ?case by simp
qed

lemma py_digits_nonneg: "py_digits ds = Some n \<Longrightarrow> 0 \<le> n"
  by (auto simp: py_digits_def digits_val_def digits_val_nonneg_aux split: if_splits)

lemma py_int_nonneg: "py_int c = Some n \<Longrightarrow> CHR ''-'' \<notin> set c \<Longrightarrow> 0 \<le> n"
  by (cases c) (auto simp: py_int_def dest: py_digits_nonneg split: if_splits)

lemma parse_salary_SomeD:
  "parse_salary_to_int s = Some n \<Longrightarrow> py_int (clean_int_text s) = Some n"
  by (auto simp: parse_salary_to_int_def Let_def split: if_splits)

text \<open>
  Claim C4, amended. When the handler succeeds, the salary is the integer that the
  cleaned salary text reads as, which is at least 0 when the salary text has no minus
  sign; and the player name is not empty, unless the first non-empty line of the stats
  begins with a comma.
\<close>

theorem normalized_fields_amended:
  "on_submit m now = Done r \<longrightarrow>
     py_int (clean_int_text (player_salary m)) = Some (salary_val r) \<and>
     (CHR ''-'' \<notin> set (player_salary m) \<longrightarrow> 0 \<le> salary_val r) \<and>
     (player_name r = [] \<longrightarrow>
        (\<exists>first others. stripped_lines (py_strip (player_stats m)) = first # others \<and>
           hd first = CHR '',''))"
proof (intro impI conjI)
  assume d: "on_submit m now = Done r"
  from on_submit_DoneD(1) [OF d]
  show s: "py_int (clean_int_text (player_salary m)) = Some (salary_val r)"
    using parse_salary_SomeD [of "py_strip (player_salary m)" "salary_val r"]
    by (simp add: clean_int_text_strip)
  {
    assume "CHR ''-'' \<notin> set (player_salary m)"
    then have "CHR ''-'' \<notin> set (clean_int_text (player_salary m))"
      by (simp add: clean_int_text_def)
    with s show "0 \<le> salary_val r" by (rule py_int_nonneg)
  }
  {
    assume "player_name r = []"
    with on_submit_DoneD(4) [OF d] have "extract_player_name (py_strip (player_stats m)) = []"
      by simp
    then show "\<exists>first others. stripped_lines (py_strip (player_stats m)) = first # others \<and>
        hd first = CHR '',''"
      by (rule extract_player_name_empty)
  }
qed

lemma comma_modal:
  "on_submit
     \<lparr>retention_type = ''percent'', teams = ''Rangers'', player_stats = '',x'',
      player_salary = ''-100'', retention_amount = ''100'', years_retained = ''2''\<rparr> 2025 =
   Done \<lparr>t_from = ''Rangers'', t_to = ''Unknown'', player_name = [],
     salary_val = - 100, years = 2,
     retained = \<lparr>retained_amount = - 100, remaining = 0, pct = Finite 100,
       retention_display = ''100.00%''\<rparr>,
     expire_year = 2027, stats_preview = '',x'', footer = ''Percent''\<rparr>"
  by (simp add: submit_defs name_defs eval_defs rnd_numeral rnd_neg_numeral)

text \<open>
  Claim C4 as stated fails: the salary \<open>-100\<close> and the stats \<open>,x\<close> are accepted, with a
  negative salary and an empty player name.
\<close>

theorem normalized_fields_counterexample:
  "on_submit
     \<lparr>retention_type = ''percent'', teams = ''Rangers'', player_stats = '',x'',
      player_salary = ''-100'', retention_amount = ''100'', years_retained = ''2''\<rparr> 2025 =
   Done \<lparr>t_from = ''Rangers'', t_to = ''Unknown'', player_name = [],
     salary_val = - 100, years = 2,
     retained = \<lparr>retained_amount = - 100, remaining = 0, pct = Finite 100,
       retention_display = ''100.00%''\<rparr>,
     expire_year = 2027, stats_preview = '',x'', footer = ''Percent''\<rparr> \<and>
   \<not> (player_name \<lparr>t_from = ''Rangers'', t_to = ''Unknown'', player_name = [],
     salary_val = - 100, years = 2,
     retained = \<lparr>retained_amount = - 100, remaining = 0, pct = Finite 100,
       retention_display = ''100.00%''\<rparr>,
     expire_year = 2027, stats_preview = '',x'', footer = ''Percent''\<rparr> \<noteq> [] \<and>
   0 \<le> salary_val \<lparr>t_from = ''Rangers'', t_to = ''Unknown'', player_name = [],
     salary_val = - 100, years = 2,
     retained = \<lparr>retained_amount = - 100, remaining = 0, pct = Finite 100,
       retention_display = ''100.00%''\<rparr>,
     expire_year = 2027, stats_preview = '',x'', footer = ''Percent''\<rparr>)"
  using comma_modal by simp

theorem normalized_fields_amended_witness:
  "on_submit
     \<lparr>retention_type = ''percent'', teams = ''Rangers -> Devils'',
      player_stats = ''Name: J. Smith'', player_salary = ''$8,000,000'',
      retention_amount = ''100'', years_retained = ''2''\<rparr> 2025 =
   Done \<lparr>t_from = ''Rangers'', t_to = ''Devils'', player_name = ''J. Smith'',
     salary_val = 8000000, years = 2,
     retained = \<lparr>retained_amount = 8000000, remaining = 0, pct = Finite 100,
       retention_display = ''100.00%''\<rparr>,
     expire_year = 2027, stats_preview = ''Name: J. Smith'', footer = ''Percent''\<rparr> \<and>
   CHR ''-'' \<notin> set ''$8,000,000'' \<and>
   py_int (clean_int_text ''$8,000,000'') = Some 8000000 \<and> (0::int) \<le> 8000000 \<and>
   on_submit
     \<lparr>retention_type = ''percent'', teams = ''Rangers'', player_stats = '',x'',
      player_salary = ''-100'', retention_amount = ''100'', years_retained = ''2''\<rparr> 2025 =
   Done \<lparr>t_from = ''Rangers'', t_to = ''Unknown'', player_name = [],
     salary_val = - 100, years = 2,
     retained = \<lparr>retained_amount = - 100, remaining = 0, pct = Finite 100,
       retention_display = ''100.00%''\<rparr>,
     expire_year = 2027, stats_preview = '',x'', footer = ''Percent''\<rparr> \<and>
   py_int (clean_int_text ''-100'') = Some (- 100) \<and>
   (\<exists>first others. stripped_lines (py_strip '',x'') = first # others \<and> hd first = CHR '','')"
  using normalized_fields_amended [of
      "\<lparr>retention_type = ''percent'', teams = ''Rangers -> Devils'',
        player_stats = ''Name: J. Smith'', player_salary = ''$8,000,000'',
        retention_amount = ''100'', years_retained = ''2''\<rparr>" 2025
      "\<lparr>t_from = ''Rangers'', t_to = ''Devils'', player_name = ''J. Smith'',
        salary_val = 8000000, years = 2,
        retained = \<lparr>retained_amount = 8000000, remaining = 0, pct = Finite 100,
          retention_display = ''100.00%''\<rparr>,
        expire_year = 2027, stats_preview = ''Name: J. Smith'', footer = ''Percent''\<rparr>"]
    normalized_fields_amended [of
      "\<lparr>retention_type = ''percent'', teams = ''Rangers'', player_stats = '',x'',
        player_salary = ''-100'', retention_amount = ''100'', years_retained = ''2''\<rparr>" 2025
      "\<lparr>t_from = ''Rangers'', t_to = ''Unknown'', player_name = [],
        salary_val = - 100, years = 2,
        retained = \<lparr>retained_amount = - 100, remaining = 0, pct = Finite 100,
          retention_display = ''100.00%''\<rparr>,
        expire_year = 2027, stats_preview = '',x'', footer = ''Percent''\<rparr>"]
    smith_modal comma_modal
  by simp

subsection \<open>Retained and remaining amounts\<close>

lemma clamp_pct_range: "0 \<le> clamp_pct d \<and> clamp_pct d \<le> 100"
  by (cases d) (auto simp: clamp_pct_def Let_def)

lemma int_to_float_nonneg:
  assumes "int_to_float n = Inr s" "0 \<le> n"
  shows "0 \<le> s"
proof -
  have "0 \<le> (of_int n :: rat)" using assms(2) by simp
  from rnd_nonneg_cases [OF this] assms(1) show ?thesis
    by (auto simp: int_to_float_def finite_or_overflow_def)
qed

lemma int_to_float_small:
  assumes "\<bar>n\<bar> < 2 ^ 53"
  shows "int_to_float n = Inr (of_int n)"
  using rnd_of_int [OF assms] by (simp add: int_to_float_def finite_or_overflow_def)

lemma rnd_Finite_nonneg: "rnd x = Finite y \<Longrightarrow> 0 \<le> x \<Longrightarrow> 0 \<le> y"
  using rnd_nonneg_cases [of x] by auto

lemma rnd_le_int0:
  assumes "0 \<le> x" "x \<le> of_int n" "n < 2 ^ 53"
  shows "\<exists>r. rnd x = Finite r \<and> 0 \<le> r \<and> r \<le> of_int n"
proof (cases "x = 0")
  case True
  with assms(2) show ?thesis by simp
next
  case False
  with assms(1) have "0 < x" by simp
  then show ?thesis using assms(2,3) by (rule rnd_le_int)
qed

text \<open>The quotient \<open>pct / 100.0\<close> of a clamped percentage is a finite number from 0 to 1.\<close>

lemma fdiv_clamped:
  assumes "0 \<le> p" "p \<le> 100"
  shows "\<exists>q. fdiv p 100 = Finite q \<and> 0 \<le> q \<and> q \<le> 1"
proof -
  have "0 \<le> p / 100" "p / 100 \<le> of_int 1" using assms by simp_all
  from rnd_le_int0 [OF this] show ?thesis by (simp add: fdiv_def)
qed

lemma percent_retention_DoneD:
  assumes "percent_retention salary raw = Done res"
  obtains parsed s q x where
    "py_float raw = Some parsed" "int_to_float salary = Inr s"
    "fdiv (clamp_pct parsed) 100 = Finite q" "fmul s q = Finite x"
    "retained_amount res = \<lfloor>x\<rfloor>" "remaining res = salary - \<lfloor>x\<rfloor>"
    "pct res = Finite (clamp_pct parsed)"
    "retention_display res = fmt2 (Finite (clamp_pct parsed)) @ ''%''"
  using assms
  by (auto simp: percent_retention_def Let_def py_floor_def
      split: option.splits sum.splits double.splits)

lemma numeric_retention_DoneD:
  assumes "numeric_retention salary raw = Done res"
  obtains parsed r0 where
    "py_float raw = Some parsed" "py_trunc parsed = Inr r0"
    "retained_amount res = max 0 r0" "remaining res = max 0 (salary - max 0 r0)"
    "pct res = (if 0 < salary
                then (case int_truediv (max 0 r0) salary of Inr q \<Rightarrow> fmul q 100)
                else Finite 0)"
    "0 < salary \<longrightarrow> (\<exists>q. int_truediv (max 0 r0) salary = Inr q)"
  using assms
  by (auto simp: numeric_retention_def Let_def split: option.splits sum.splits if_splits)

lemma percent_retention_nonneg:
  assumes "percent_retention salary raw = Done res" "0 \<le> salary"
  shows "0 \<le> retained_amount res"
    and "retained_amount res + remaining res = salary"
    and "salary = 0 \<longrightarrow> remaining res = 0"
    and "salary < 2 ^ 53 \<longrightarrow> 0 \<le> remaining res"
proof -
  from assms(1) obtain parsed s q x where
    s: "int_to_float salary = Inr s" and q: "fdiv (clamp_pct parsed) 100 = Finite q"
    and x: "fmul s q = Finite x"
    and r: "retained_amount res = \<lfloor>x\<rfloor>" "remaining res = salary - \<lfloor>x\<rfloor>"
    by (rule percent_retention_DoneD)
  have s0: "0 \<le> s" using s assms(2) by (rule int_to_float_nonneg)
  from fdiv_clamped [of "clamp_pct parsed"] clamp_pct_range [of parsed] q
  have q01: "0 \<le> q" "q \<le> 1" by auto
  have sq: "0 \<le> s * q" using s0 q01 by simp
  have x0: "0 \<le> x" using x sq unfolding fmul_def by (rule rnd_Finite_nonneg)
  then show "0 \<le> retained_amount res" by (simp add: r)
  show "retained_amount res + remaining res = salary" by (simp add: r)
  show "salary = 0 \<longrightarrow> remaining res = 0"
  proof
    assume z: "salary = 0"
    with s have "s = 0" by (simp add: int_to_float_def finite_or_overflow_def)
    with x have "x = 0" by (simp add: fmul_def)
    with z show "remaining res = 0" by (simp add: r)
  qed
  show "salary < 2 ^ 53 \<longrightarrow> 0 \<le> remaining res"
  proof
    assume small: "salary < 2 ^ 53"
    with assms(2) have "\<bar>salary\<bar> < 2 ^ 53" by simp
    from int_to_float_small [OF this] s have ss: "s = of_int salary" by simp
    have "s * q \<le> s * 1" using s0 q01 by (intro mult_left_mono) simp_all
    then have "s * q \<le> of_int salary" by (simp add: ss)
    from rnd_le_int0 [OF sq this small] x have "x \<le> of_int salary" by (simp add: fmul_def)
    then have "\<lfloor>x\<rfloor> \<le> salary" by (simp add: floor_le_iff)
    then show "0 \<le> remaining res" by (simp add: r)
  qed
qed

text \<open>
  Claim C1, amended. For a salary of at least 0 the retained amount is at least 0 in
  both modes, and the remaining amount is 0 when the salary is 0. In numeric mode the
  remaining amount is \<open>max(0, salary - retained)\<close>, so it is at least 0, and the two
  amounts add up to the salary when the retained amount does not exceed it. In percent
  mode the two amounts always add up to the salary, and the remaining amount is at least
  0 for a salary below \<open>2 ^ 53\<close>.
\<close>

theorem retention_amounts_amended:
  "0 \<le> salary \<longrightarrow>
     (numeric_retention salary raw = Done res \<longrightarrow>
        0 \<le> retained_amount res \<and> 0 \<le> remaining res \<and>
        remaining res = max 0 (salary - retained_amount res) \<and>
        (retained_amount res \<le> salary \<longrightarrow> retained_amount res + remaining res = salary) \<and>
        (salary = 0 \<longrightarrow> remaining res = 0)) \<and>
     (percent_retention salary raw = Done res \<longrightarrow>
        0 \<le> retained_amount res \<and>
        retained_amount res + remaining res = salary \<and>
        (salary = 0 \<longrightarrow> remaining res = 0) \<and>
        (salary < 2 ^ 53 \<longrightarrow> 0 \<le> remaining res))"
proof (intro impI conjI)
  assume "0 \<le> salary" and n: "numeric_retention salary raw = Done res"
  from n obtain r0 where r: "retained_amount res = max 0 r0"
      "remaining res = max 0 (salary - max 0 r0)"
    by (rule numeric_retention_DoneD)
  show "0 \<le> retained_amount res" "0 \<le> remaining res"
    "remaining res = max 0 (salary - retained_amount res)"
    by (simp_all add: r)
  { assume "retained_amount res \<le> salary"
    then show "retained_amount res + remaining res = salary" by (simp add: r) }
  { assume "salary = 0"
    then show "remaining res = 0" by (simp add: r) }
next
  assume s: "0 \<le> salary" and p: "percent_retention salary raw = Done res"
  note f = percent_retention_nonneg [OF p s]
  show "0 \<le> retained_amount res" by (rule f(1))
  show "retained_amount res + remaining res = salary" by (rule f(2))
  { assume "salary = 0"
    with f(3) show "remaining res = 0" by blast }
  { assume "salary < 2 ^ 53"
    with f(4) show "0 \<le> remaining res" by blast }
qed

lemma numeric_200_of_100:
  "numeric_retention 100 ''200'' =
     Done \<lparr>retained_amount = 200, remaining = 0, pct = Finite 200,
       retention_display = ''$200 (200.00%)''\<rparr>"
  by (simp add: eval_defs rnd_numeral)

lemma percent_100_of_8000000:
  "percent_retention 8000000 ''100'' =
     Done \<lparr>retained_amount = 8000000, remaining = 0, pct = Finite 100,
       retention_display = ''100.00%''\<rparr>"
  by (simp add: eval_defs rnd_numeral)

text \<open>
  Claim C1 as stated fails in numeric mode, where the retained amount has no upper
  bound: 200 retained of a salary of 100 leaves 0, and 200 + 0 is not 100.
\<close>

theorem retention_amounts_counterexample:
  "(0::int) \<le> 100 \<and>
   numeric_retention 100 ''200'' =
     Done \<lparr>retained_amount = 200, remaining = 0, pct = Finite 200,
       retention_display = ''$200 (200.00%)''\<rparr> \<and>
   (0::int) < 100 \<and>
   retained_amount \<lparr>retained_amount = 200, remaining = 0, pct = Finite 200,
       retention_display = ''$200 (200.00%)''\<rparr> +
   remaining \<lparr>retained_amount = 200, remaining = 0, pct = Finite 200,
       retention_display = ''$200 (200.00%)''\<rparr> \<noteq> 100"
  using numeric_200_of_100 by simp

theorem retention_amounts_amended_witness:
  "(0::int) \<le> 100 \<and>
   numeric_retention 100 ''200'' =
     Done \<lparr>retained_amount = 200, remaining = 0, pct = Finite 200,
       retention_display = ''$200 (200.00%)''\<rparr> \<and>
   (0::int) = max 0 (100 - 200) \<and>
   (0::int) \<le> 8000000 \<and> (8000000::int) < 2 ^ 53 \<and>
   percent_retention 8000000 ''100'' =
     Done \<lparr>retained_amount = 8000000, remaining = 0, pct = Finite 100,
       retention_display = ''100.00%''\<rparr> \<and>
   (8000000::int) + 0 = 8000000"
  using retention_amounts_amended [of 100 "''200''"
      "\<lparr>retained_amount = 200, remaining = 0, pct = Finite 200,
        retention_display = ''$200 (200.00%)''\<rparr>"]
    retention_amounts_amended [of 8000000 "''100''"
      "\<lparr>retained_amount = 8000000, remaining = 0, pct = Finite 100,
        retention_display = ''100.00%''\<rparr>"]
    numeric_200_of_100 percent_100_of_8000000
  by simp

subsection \<open>Percent mode at 29 percent of 100\<close>

lemma fdiv_29_100: "fdiv 29 100 = Finite (5224175567749775 / 18014398509481984)"
proof -
  have "rnd (29 / 100) =
      Finite (of_int (round_half_even ((29 / 100) / 2 powi (- 2 - 52))) * 2 powi (- 2 - 52))"
    by (rule rnd_normal) simp_all
  moreover have "round_half_even ((29 / 100) / 2 powi (- 2 - 52)) = 5224175567749775"
    by (rule rhe_eqI) simp
  ultimately show ?thesis by (simp add: fdiv_def)
qed

lemma fmul_100_q29:
  "fmul 100 (5224175567749775 / 18014398509481984) = Finite (8162774324609023 / 281474976710656)"
proof -
  define x :: rat where "x = 100 * (5224175567749775 / 18014398509481984)"
  have "rnd x = Finite (of_int (round_half_even (x / 2 powi (4 - 52))) * 2 powi (4 - 52))"
    by (rule rnd_normal) (simp_all add: x_def)
  moreover have "round_half_even (x / 2 powi (4 - 52)) = 8162774324609023"
    by (rule rhe_eqI) (simp add: x_def)
  ultimately show ?thesis by (simp add: fmul_def x_def)
qed

text \<open>
  Claim C2 at a salary of 100 and 29 percent: the claim gives
  \<open>floor(100 * 29 / 100) = 29\<close>; the handler computes \<open>29 / 100.0\<close> first, which is below
  0.29, so that the product is below 29 and the retained amount is 28.
\<close>

theorem percent_29_of_100:
  "percent_retention 100 ''29'' =
     Done \<lparr>retained_amount = 28, remaining = 72, pct = Finite 29,
       retention_display = ''29.00%''\<rparr> \<and>
   \<lfloor>(100 :: rat) * 29 / 100\<rfloor> = 29"
proof -
  have "\<lfloor>(8162774324609023 / 281474976710656 :: rat)\<rfloor> = 28"
    by (rule floor_unique) simp_all
  then show ?thesis
    by (simp add: percent_retention_def py_float_def py_float_unsigned_def py_isdigit_def
        digits_val_def digit_val_def clamp_pct_def int_to_float_def finite_or_overflow_def
        py_floor_def fmt2_def two_digits_def char_of_def bit_0 rnd_numeral
        fdiv_29_100 fmul_100_q29)
qed


text \<open>A salary above \<open>2 ^ 53\<close> that its conversion to a float rounds up.\<close>

lemma int_to_float_large: "int_to_float 18014398509481987 = Inr 18014398509481988"
proof -
  have "rnd 18014398509481987 =
      Finite (of_int (round_half_even (18014398509481987 / 2 powi (54 - 52))) * 2 powi (54 - 52))"
    by (rule rnd_normal) simp_all
  moreover have "round_half_even (18014398509481987 / 2 powi (54 - 52)) = 4503599627370497"
    by (rule rhe_eqI) simp
  ultimately show ?thesis by (simp add: int_to_float_def finite_or_overflow_def)
qed

lemma rnd_large: "rnd 18014398509481988 = Finite 18014398509481988"
proof -
  have "rnd 18014398509481988 =
      Finite (of_int (round_half_even (18014398509481988 / 2 powi (54 - 52))) * 2 powi (54 - 52))"
    by (rule rnd_normal) simp_all
  moreover have "round_half_even (18014398509481988 / 2 powi (54 - 52)) = 4503599627370497"
    by (rule rhe_eqI) simp
  ultimately show ?thesis by simp
qed

lemma percent_100_of_large:
  "percent_retention 18014398509481987 ''100'' =
     Done \<lparr>retained_amount = 18014398509481988, remaining = - 1, pct = Finite 100,
       retention_display = ''100.00%''\<rparr>"
  by (simp add: percent_retention_def py_float_def py_float_unsigned_def py_isdigit_def
      digits_val_def digit_val_def clamp_pct_def finite_or_overflow_def fdiv_def fmul_def
      py_floor_def fmt2_def two_digits_def char_of_def bit_0 rnd_numeral
      int_to_float_large rnd_large)

subsection \<open>Numeric mode\<close>

lemma rnd_abs_error:
  assumes "0 < x" "rnd x = Finite y"
  shows "\<bar>y - x\<bar> \<le> ulp x / 2"
proof -
  define z where "z = x / ulp x"
  have u: "0 < ulp x" by (rule ulp_pos)
  from assms have y: "y = of_int (round_half_even z) * ulp x"
    by (simp add: rnd_def Let_def z_def split: if_splits)
  have x: "x = z * ulp x" using u by (simp add: z_def)
  have "\<bar>of_int (round_half_even z) - z\<bar> \<le> 1 / 2"
    using rhe_lower [of z] rhe_upper [of z] by linarith
  then have "\<bar>of_int (round_half_even z) - z\<bar> * ulp x \<le> 1 / 2 * ulp x"
    using u by (intro mult_right_mono) simp_all
  moreover have "y - x = (of_int (round_half_even z) - z) * ulp x"
    by (subst x, subst y) (simp add: algebra_simps)
  ultimately show ?thesis using u by (simp add: abs_mult)
qed

lemma ulp_normal:
  assumes "2 powi (- 1022) \<le> x"
  shows "ulp x \<le> x / 2 ^ 52"
proof -
  have xpos: "0 < x" using assms two_powi_pos [of "- 1022"] by linarith
  have e: "- 1022 \<le> ilog2 x"
  proof (rule ccontr)
    assume "\<not> - 1022 \<le> ilog2 x"
    then have "(2::rat) powi (ilog2 x + 1) \<le> 2 powi (- 1022)" by (intro two_powi_mono) simp
    with ilog2_bounds(2) [OF xpos] assms show False by simp
  qed
  then have "ulp x = 2 powi (ilog2 x - 52)" by (simp add: ulp_def max_def)
  also have "\<dots> = 2 powi (ilog2 x) / 2 powi 52" by (simp only: two_powi_diff)
  also have "\<dots> \<le> x / 2 powi 52"
    using ilog2_bounds(1) [OF xpos] by (intro divide_right_mono) simp_all
  finally show ?thesis by simp
qed

lemma rnd_rel_error:
  assumes "2 powi (- 1022) \<le> x" "rnd x = Finite y"
  shows "\<bar>y - x\<bar> \<le> x / 2 ^ 53"
proof -
  have xpos: "0 < x" using assms(1) two_powi_pos [of "- 1022"] by linarith
  from rnd_abs_error [OF xpos assms(2)] ulp_normal [OF assms(1)]
  have "\<bar>y - x\<bar> \<le> (x / 2 ^ 52) / 2" by simp
  then show ?thesis by simp
qed

text \<open>The implied percentage of numeric mode is within \<open>2 powi -51\<close> of the exact one.\<close>

lemma implied_pct_error:
  assumes s: "0 < s" "s < 2 ^ 1000" and r: "0 \<le> r"
    and q: "int_truediv r s = Inr q" and v: "fmul q 100 = Finite v"
  shows "\<bar>v - 100 * (of_int r / of_int s)\<bar> \<le> 100 * (of_int r / of_int s) / 2 ^ 51"
proof (cases "r = 0")
  case True
  with q s have "q = 0" by (simp add: int_truediv_def finite_or_overflow_def)
  with v have "v = 0" by (simp add: fmul_def)
  with True show ?thesis by simp
next
  case False
  define t :: rat where "t = of_int r / of_int s"
  from s have spos: "0 < (of_int s :: rat)" by simp
  from False r have "1 \<le> r" by simp
  then have r1: "1 \<le> (of_int r :: rat)" by simp
  have "(of_int s :: rat) < of_int (2 ^ 1000)" using s(2) by (simp only: of_int_less_iff)
  then have s1000: "(of_int s :: rat) < 2 ^ 1000" by simp
  have "1 / 2 ^ 1000 < 1 / (of_int s :: rat)"
    using spos s1000 by (simp add: divide_strict_left_mono)
  also have "\<dots> \<le> t" unfolding t_def using r1 spos by (simp add: divide_right_mono)
  finally have t_lo: "1 / 2 ^ 1000 < t" .
  have p1000: "(2::rat) powi (- 1000) = 1 / 2 ^ 1000" by (simp add: power_int_minus_divide)
  have p1001: "(2::rat) powi (- 1001) = 1 / 2 ^ 1001" by (simp add: power_int_minus_divide)
  have tn: "2 powi (- 1022) \<le> t"
    using t_lo two_powi_mono [of "- 1022" "- 1000"] by (simp add: p1000)
  have tpos: "0 < t" using tn two_powi_pos [of "- 1022"] by linarith
  from q s have qr: "rnd t = Finite q"
    by (auto simp: int_truediv_def finite_or_overflow_def t_def split: double.splits)
  from rnd_rel_error [OF tn qr] have qerr: "\<bar>q - t\<bar> \<le> t / 2 ^ 53" .
  have "t / 2 ^ 53 \<le> t / 2" using tpos by (intro divide_left_mono) simp_all
  with qerr tpos have q_lo: "t / 2 \<le> q" and q_hi: "q \<le> 2 * t" by linarith+
  have "2 powi (- 1022) \<le> (2::rat) powi (- 1001)" by (intro two_powi_mono) simp
  also have "\<dots> \<le> t / 2" using t_lo by (simp add: p1001)
  also have "\<dots> \<le> q * 100" using q_lo tpos by simp
  finally have qn: "2 powi (- 1022) \<le> q * 100" .
  from v have vr: "rnd (q * 100) = Finite v" by (simp add: fmul_def)
  from rnd_rel_error [OF qn vr] have verr: "\<bar>v - q * 100\<bar> \<le> q * 100 / 2 ^ 53" .
  have "q * 100 / 2 ^ 53 \<le> (2 * t) * 100 / 2 ^ 53"
    using q_hi by (intro divide_right_mono mult_right_mono) simp_all
  with verr have verr': "\<bar>v - q * 100\<bar> \<le> 200 * t / 2 ^ 53" by simp
  have "v - 100 * t = (v - q * 100) + 100 * (q - t)" by simp
  then have "\<bar>v - 100 * t\<bar> \<le> \<bar>v - q * 100\<bar> + \<bar>100 * (q - t)\<bar>"
    by (simp only: abs_triangle_ineq)
  moreover have "\<bar>100 * (q - t)\<bar> = 100 * \<bar>q - t\<bar>"
    by (subst abs_mult) simp
  ultimately have "\<bar>v - 100 * t\<bar> \<le> \<bar>v - q * 100\<bar> + 100 * \<bar>q - t\<bar>"
    by (simp only:)
  also have "\<dots> \<le> 200 * t / 2 ^ 53 + 100 * (t / 2 ^ 53)"
    using verr' qerr by (intro add_mono mult_left_mono) simp_all
  also have "\<dots> \<le> 100 * t / 2 ^ 51" using tpos by simp
  finally show ?thesis by (simp add: t_def)
qed

text \<open>
  Claim C3. In numeric mode, for a salary of at least 0, the retention text is read as
  a float and truncated toward zero, the retained amount is that integer or 0 if it is
  negative, and the remaining amount is \<open>max(0, salary - retained)\<close>. The implied
  percentage is 0 for a salary of 0; for a positive salary it is the float
  \<open>retained / salary * 100.0\<close>, quotient and product each rounded once, which for a salary
  below \<open>2 ^ 1000\<close> differs from the exact percentage by at most its \<open>2 ^ 51\<close>-th part.
\<close>

theorem numeric_retention_spec:
  "0 \<le> salary \<longrightarrow> numeric_retention salary raw = Done res \<longrightarrow>
     (\<exists>x. py_float raw = Some (Finite x) \<and>
        retained_amount res = max 0 (if 0 \<le> x then \<lfloor>x\<rfloor> else - \<lfloor>- x\<rfloor>)) \<and>
     remaining res = max 0 (salary - retained_amount res) \<and>
     (salary = 0 \<longrightarrow> pct res = Finite 0) \<and>
     (0 < salary \<longrightarrow>
        (\<exists>q. int_truediv (retained_amount res) salary = Inr q \<and> pct res = fmul q 100) \<and>
        (\<forall>v. salary < 2 ^ 1000 \<longrightarrow> pct res = Finite v \<longrightarrow>
           \<bar>v - 100 * (of_int (retained_amount res) / of_int salary)\<bar>
             \<le> 100 * (of_int (retained_amount res) / of_int salary) / 2 ^ 51))"
proof (intro impI)
  assume s0: "0 \<le> salary" and d: "numeric_retention salary raw = Done res"
  from d obtain parsed r0 where
    f: "py_float raw = Some parsed" and t: "py_trunc parsed = Inr r0"
    and r: "retained_amount res = max 0 r0" and m: "remaining res = max 0 (salary - max 0 r0)"
    and p: "pct res = (if 0 < salary
                then (case int_truediv (max 0 r0) salary of Inr q \<Rightarrow> fmul q 100)
                else Finite 0)"
    and q: "0 < salary \<longrightarrow> (\<exists>q. int_truediv (max 0 r0) salary = Inr q)"
    by (rule numeric_retention_DoneD)
  from t obtain x where x: "parsed = Finite x" "r0 = (if 0 \<le> x then \<lfloor>x\<rfloor> else - \<lfloor>- x\<rfloor>)"
    by (cases parsed) (auto simp: py_trunc_def)
  have c1: "\<exists>x. py_float raw = Some (Finite x) \<and>
        retained_amount res = max 0 (if 0 \<le> x then \<lfloor>x\<rfloor> else - \<lfloor>- x\<rfloor>)"
    using f x r by auto
  have c2: "remaining res = max 0 (salary - retained_amount res)"
    by (simp add: r m)
  have c3: "salary = 0 \<longrightarrow> pct res = Finite 0"
    by (simp add: p)
  have c4: "(\<exists>q. int_truediv (retained_amount res) salary = Inr q \<and> pct res = fmul q 100) \<and>
        (\<forall>v. salary < 2 ^ 1000 \<longrightarrow> pct res = Finite v \<longrightarrow>
           \<bar>v - 100 * (of_int (retained_amount res) / of_int salary)\<bar>
             \<le> 100 * (of_int (retained_amount res) / of_int salary) / 2 ^ 51)"
    if pos: "0 < salary"
  proof -
    from q pos obtain q' where q': "int_truediv (retained_amount res) salary = Inr q'"
      by (auto simp: r)
    with p pos have pq: "pct res = fmul q' 100" by (simp add: r)
    have r0: "0 \<le> retained_amount res" by (simp add: r)
    have "\<bar>v - 100 * (of_int (retained_amount res) / of_int salary)\<bar>
             \<le> 100 * (of_int (retained_amount res) / of_int salary) / 2 ^ 51"
      if "salary < 2 ^ 1000" "pct res = Finite v" for v
      using pos that(1) r0 q' by (rule implied_pct_error) (simp add: pq [symmetric] that(2))
    with q' pq show ?thesis by blast
  qed
  from c1 c2 c3 c4 show "(\<exists>x. py_float raw = Some (Finite x) \<and>
        retained_amount res = max 0 (if 0 \<le> x then \<lfloor>x\<rfloor> else - \<lfloor>- x\<rfloor>)) \<and>
     remaining res = max 0 (salary - retained_amount res) \<and>
     (salary = 0 \<longrightarrow> pct res = Finite 0) \<and>
     (0 < salary \<longrightarrow>
        (\<exists>q. int_truediv (retained_amount res) salary = Inr q \<and> pct res = fmul q 100) \<and>
        (\<forall>v. salary < 2 ^ 1000 \<longrightarrow> pct res = Finite v \<longrightarrow>
           \<bar>v - 100 * (of_int (retained_amount res) / of_int salary)\<bar>
             \<le> 100 * (of_int (retained_amount res) / of_int salary) / 2 ^ 51))"
    by blast
qed

lemma rnd_5_2: "rnd (5 / 2) = Finite (5 / 2)"
proof -
  have "rnd (5 / 2) =
      Finite (of_int (round_half_even ((5 / 2) / 2 powi (1 - 52))) * 2 powi (1 - 52))"
    by (rule rnd_normal) simp_all
  moreover have "round_half_even ((5 / 2) / 2 powi (1 - 52)) = 5629499534213120"
    by (rule rhe_eqI) simp
  ultimately show ?thesis by simp
qed

lemma numeric_2_5_of_0:
  "numeric_retention 0 ''2.5'' =
     Done \<lparr>retained_amount = 2, remaining = 0, pct = Finite 0,
       retention_display = ''$2 (0.00%)''\<rparr>"
proof -
  have "\<lfloor>(5 / 2 :: rat)\<rfloor> = 2" by (rule floor_unique) simp_all
  then show ?thesis by (simp add: eval_defs rnd_5_2)
qed

theorem numeric_retention_spec_witness:
  "(0::int) \<le> 100 \<and> (0::int) < 100 \<and> (100::int) < 2 ^ 1000 \<and>
   numeric_retention 100 ''200'' =
     Done \<lparr>retained_amount = 200, remaining = 0, pct = Finite 200,
       retention_display = ''$200 (200.00%)''\<rparr> \<and>
   py_float ''200'' = Some (Finite 200) \<and> (200::int) = max 0 \<lfloor>200 :: rat\<rfloor> \<and>
   (0::int) = max 0 (100 - 200) \<and>
   int_truediv 200 100 = Inr 2 \<and> fmul 2 100 = Finite 200 \<and>
   \<bar>200 - 100 * (of_int 200 / of_int 100)\<bar> \<le> (100 * (of_int 200 / of_int 100) / 2 ^ 51 :: rat) \<and>
   numeric_retention 0 ''2.5'' =
     Done \<lparr>retained_amount = 2, remaining = 0, pct = Finite 0,
       retention_display = ''$2 (0.00%)''\<rparr> \<and>
   py_float ''2.5'' = Some (Finite (5 / 2)) \<and> (2::int) = max 0 \<lfloor>5 / 2 :: rat\<rfloor>"
proof -
  have fl: "\<lfloor>(5 / 2 :: rat)\<rfloor> = 2" by (rule floor_unique) simp_all
  have e: "py_float ''200'' = Some (Finite 200)" "py_float ''2.5'' = Some (Finite (5 / 2))"
    "int_truediv 200 100 = Inr 2" "fmul 2 100 = Finite 200"
    by (simp_all add: eval_defs rnd_numeral rnd_5_2)
  show ?thesis
    using numeric_retention_spec [of 100 "''200''"
        "\<lparr>retained_amount = 200, remaining = 0, pct = Finite 200,
          retention_display = ''$200 (200.00%)''\<rparr>"]
      numeric_retention_spec [of 0 "''2.5''"
        "\<lparr>retained_amount = 2, remaining = 0, pct = Finite 0,
          retention_display = ''$2 (0.00%)''\<rparr>"]
      numeric_200_of_100 numeric_2_5_of_0 e fl
    by simp
qed

subsection \<open>Display format, and when a result is returned\<close>

lemma digit_char: "(n::nat) < 10 \<Longrightarrow> py_isdigit (char_of (48 + n))"
  by (simp add: py_isdigit_def)

lemma py_str_nat_digits: "py_str_nat n \<noteq> [] \<and> list_all py_isdigit (py_str_nat n)"
proof (induction n rule: py_str_nat.induct)
  case (1 n)
  show ?case
  proof (cases "n < 10")
    case True
    then show ?thesis by (simp add: digit_char)
  next
    case False
    have "n mod 10 < 10" by simp
    then have "py_isdigit (char_of (48 + n mod 10))" by (rule digit_char)
    with False "1.IH" show ?thesis by (subst py_str_nat.simps) simp
  qed
qed

text \<open>The two-decimal format: digits, a point and two digits.\<close>

lemma fmt2_shape:
  assumes "0 \<le> x"
  shows "\<exists>ds d1 d2. fmt2 (Finite x) = ds @ ''.'' @ [d1, d2] \<and> ds \<noteq> [] \<and>
    list_all py_isdigit ds \<and> py_isdigit d1 \<and> py_isdigit d2"
proof -
  define n where "n = nat (round_half_even (\<bar>x\<bar> * 100))"
  have "n mod 100 div 10 < 10" "n mod 100 mod 10 < 10" by simp_all
  then have "py_isdigit (char_of (48 + n mod 100 div 10))"
      "py_isdigit (char_of (48 + n mod 100 mod 10))"
    by (simp_all only: digit_char)
  moreover have "fmt2 (Finite x) = py_str_nat (n div 100) @ ''.'' @
      [char_of (48 + n mod 100 div 10), char_of (48 + n mod 100 mod 10)]"
    using assms by (simp add: fmt2_def two_digits_def n_def Let_def)
  ultimately show ?thesis
    using py_str_nat_digits [of "n div 100"] by blast
qed

text \<open>
  What percent mode does besides the product: the percentage is clamped to the interval
  from 0 to 100, the remaining amount is the salary less the retained amount, and the
  display is the clamped percentage with two decimals and a percent sign.
\<close>

lemma percent_retention_shape:
  assumes "percent_retention salary raw = Done res"
  shows "\<exists>parsed p. py_float raw = Some parsed \<and> p = clamp_pct parsed \<and> 0 \<le> p \<and> p \<le> 100 \<and>
    pct res = Finite p \<and> remaining res = salary - retained_amount res \<and>
    (\<exists>ds d1 d2. retention_display res = ds @ ''.'' @ [d1, d2] @ ''%'' \<and> ds \<noteq> [] \<and>
       list_all py_isdigit ds \<and> py_isdigit d1 \<and> py_isdigit d2)"
proof -
  from assms obtain parsed s q x where
    f: "py_float raw = Some parsed" and "int_to_float salary = Inr s"
    and "fdiv (clamp_pct parsed) 100 = Finite q" and "fmul s q = Finite x"
    and r: "retained_amount res = \<lfloor>x\<rfloor>" "remaining res = salary - \<lfloor>x\<rfloor>"
    and p: "pct res = Finite (clamp_pct parsed)"
    and d: "retention_display res = fmt2 (Finite (clamp_pct parsed)) @ ''%''"
    by (rule percent_retention_DoneD)
  note c = clamp_pct_range [of parsed]
  from c fmt2_shape [of "clamp_pct parsed"] obtain ds d1 d2 where
    "fmt2 (Finite (clamp_pct parsed)) = ds @ ''.'' @ [d1, d2]" "ds \<noteq> []"
    "list_all py_isdigit ds" "py_isdigit d1" "py_isdigit d2" by blast
  with d have "\<exists>ds d1 d2. retention_display res = ds @ ''.'' @ [d1, d2] @ ''%'' \<and> ds \<noteq> [] \<and>
       list_all py_isdigit ds \<and> py_isdigit d1 \<and> py_isdigit d2" by auto
  with f r p c show ?thesis by auto
qed

text \<open>In the range of exactly representable salaries both modes return a result.\<close>

lemma percent_retention_returns:
  assumes "0 \<le> salary" "salary < 2 ^ 53" "py_float raw = Some parsed"
  shows "\<exists>res. percent_retention salary raw = Done res"
proof -
  from assms(1,2) have "\<bar>salary\<bar> < 2 ^ 53" by simp
  then have s: "int_to_float salary = Inr (of_int salary)" by (rule int_to_float_small)
  from fdiv_clamped [of "clamp_pct parsed"] clamp_pct_range [of parsed]
  obtain q where q: "fdiv (clamp_pct parsed) 100 = Finite q" "0 \<le> q" "q \<le> 1" by auto
  have "0 \<le> of_int salary * q" using assms(1) q(2) by simp
  moreover have "of_int salary * q \<le> of_int salary * 1"
    using assms(1) q(3) by (intro mult_left_mono) simp_all
  then have "of_int salary * q \<le> of_int salary" by simp
  ultimately obtain x where "fmul (of_int salary) q = Finite x"
    using rnd_le_int0 [of "of_int salary * q" salary] assms(2) by (auto simp: fmul_def)
  with s q(1) assms(3) show ?thesis
    by (simp add: percent_retention_def Let_def py_floor_def)
qed

lemma numeric_retention_returns:
  assumes "0 \<le> salary" "py_float raw = Some (Finite x)" "\<bar>x\<bar> < 2 ^ 53"
  shows "\<exists>res. numeric_retention salary raw = Done res"
proof (cases "0 < salary")
  case False
  with assms(2) show ?thesis
    by (simp add: numeric_retention_def Let_def py_trunc_def)
next
  case True
  define r where "r = max 0 (if 0 \<le> x then \<lfloor>x\<rfloor> else - \<lfloor>- x\<rfloor>)"
  have r0: "0 \<le> r" by (simp add: r_def)
  have "(of_int r :: rat) \<le> \<bar>x\<bar>"
  proof (cases "0 \<le> x")
    case True
    then have "0 \<le> \<lfloor>x\<rfloor>" by simp
    with True show ?thesis by (simp add: r_def)
  next
    case False
    then have "0 \<le> \<lfloor>- x\<rfloor>" by simp
    with False show ?thesis by (simp add: r_def)
  qed
  with assms(3) have "(of_int r :: rat) < of_int (2 ^ 53)" by simp
  then have r53: "r < 2 ^ 53" by (simp only: of_int_less_iff)
  have spos: "1 \<le> (of_int salary :: rat)" using True by simp
  have "0 \<le> (of_int r / of_int salary :: rat)" using r0 True by simp
  moreover have "(of_int r / of_int salary :: rat) \<le> of_int r / 1"
    using r0 spos by (intro divide_left_mono) simp_all
  then have "(of_int r / of_int salary :: rat) \<le> of_int r" by simp
  ultimately obtain q where "rnd (of_int r / of_int salary) = Finite q"
    using rnd_le_int0 [of "of_int r / of_int salary" r] r53 by auto
  with True assms(2) show ?thesis
    by (simp add: numeric_retention_def Let_def py_trunc_def int_truediv_def
        finite_or_overflow_def r_def)
qed

end
